theory Spec2Isabelle
  imports Complex_Main "HOL-Library.Word" "HOL-Library.Log_Nat"
begin

unbundle bit_operations_syntax

section \<open>Single-precision arithmetic\<close>

text \<open>
  The sketch computes with C \<^verbatim>\<open>float\<close> in two places: the scale factors of the frame
  converter and the error rate of the statistics line. A finite binary32 value is a
  rational; every operation computes the exact rational result and rounds it to the
  nearest value with a 24-bit significand, ties to even. All values that arise in the
  sketch lie in the normal range of binary32 (between \<open>2\<^sup>-\<^sup>3\<^sup>2\<close> and \<open>2\<^sup>3\<^sup>9\<close>), so
  subnormals and overflow are not modelled; division by zero gives infinity or NaN.
\<close>

type_synonym u8 = "8 word"
type_synonym u32 = "32 word"

definition round_even :: "rat \<Rightarrow> int" where
  "round_even q =
     (let f = \<lfloor>q\<rfloor>; r = q - of_int f
      in if r < 1 / 2 then f
         else if 1 / 2 < r then f + 1
         else if even f then f else f + 1)"

definition f32_exponent :: "rat \<Rightarrow> int" where
  "f32_exponent q =
     (let (a, b) = quotient_of q; d = bitlen a - bitlen b
      in if 2 powi d \<le> q then d else d - 1)"

definition f32_round :: "rat \<Rightarrow> rat" where
  "f32_round q =
     (if q = 0 then 0
      else let ulp = 2 powi (f32_exponent \<bar>q\<bar> - 23)
           in sgn q * of_int (round_even (\<bar>q\<bar> / ulp)) * ulp)"

datatype f32 = Finite rat | Infinity | NaN

definition u32_to_f32 :: "u32 \<Rightarrow> f32" where
  "u32_to_f32 w = Finite (f32_round (of_nat (unat w)))"

fun f32_div :: "f32 \<Rightarrow> f32 \<Rightarrow> f32" where
  "f32_div (Finite a) (Finite b) =
     (if b = 0 then (if a = 0 then NaN else Infinity) else Finite (f32_round (a / b)))"
| "f32_div (Finite a) Infinity = Finite 0"
| "f32_div Infinity (Finite b) = Infinity"
| "f32_div _ _ = NaN"

fun f32_mul :: "f32 \<Rightarrow> f32 \<Rightarrow> f32" where
  "f32_mul (Finite a) (Finite b) = Finite (f32_round (a * b))"
| "f32_mul Infinity (Finite b) = (if b = 0 then NaN else Infinity)"
| "f32_mul (Finite a) Infinity = (if a = 0 then NaN else Infinity)"
| "f32_mul Infinity Infinity = Infinity"
| "f32_mul _ _ = NaN"

text \<open>The C cast \<^verbatim>\<open>(int)\<close> of a finite float truncates towards zero.\<close>

definition f32_to_int :: "rat \<Rightarrow> int" where
  "f32_to_int q = (if 0 \<le> q then \<lfloor>q\<rfloor> else \<lceil>q\<rceil>)"

section \<open>Configuration\<close>

definition BMP_W :: nat where "BMP_W = 128"
definition BMP_H :: nat where "BMP_H = 64"
definition BRIGHTNESS_THRESHOLD :: u8 where "BRIGHTNESS_THRESHOLD = 64"
definition MAX_RETRIES :: nat where "MAX_RETRIES = 5"
definition FRAME_DELAY_MS :: u32 where "FRAME_DELAY_MS = 50"

text \<open>
  \<^verbatim>\<open>const float scaleX = 96.0f / BMP_W; const float scaleY = 96.0f / BMP_H;\<close>
\<close>

definition scaleX :: rat where
  "scaleX = f32_round (96 / f32_round (of_nat BMP_W))"

definition scaleY :: rat where
  "scaleY = f32_round (96 / f32_round (of_nat BMP_H))"

section \<open>Frame converter\<close>

text \<open>
  \<^verbatim>\<open>int srcX = (int)(x * scaleX); if (srcX >= 96) srcX = 95;\<close> and the same for
  \<^verbatim>\<open>srcY\<close>. The loop counters run over \<open>0..<BMP_W\<close> and \<open>0..<BMP_H\<close>, so they are
  naturals; the product is a float product of the converted counter and the factor.
\<close>

definition srcX :: "nat \<Rightarrow> int" where
  "srcX x =
     (let v = f32_to_int (f32_round (f32_round (of_nat x) * scaleX))
      in if 96 \<le> v then 95 else v)"

definition srcY :: "nat \<Rightarrow> int" where
  "srcY y =
     (let v = f32_to_int (f32_round (f32_round (of_nat y) * scaleY))
      in if 96 \<le> v then 95 else v)"

text \<open>
  The frame buffer handed out by the camera driver. \<^verbatim>\<open>fb->buf\<close> may be a null pointer
  (\<open>None\<close>); \<^verbatim>\<open>fb->len\<close> is the number of bytes behind \<^verbatim>\<open>fb->buf\<close>, so it is read off
  the byte list. The pixel formats are those of the driver's \<^verbatim>\<open>pixformat_t\<close>.
\<close>

datatype pixformat_t =
    PIXFORMAT_RGB565 | PIXFORMAT_YUV422 | PIXFORMAT_YUV420 | PIXFORMAT_GRAYSCALE
  | PIXFORMAT_JPEG | PIXFORMAT_RGB888 | PIXFORMAT_RAW | PIXFORMAT_RGB444 | PIXFORMAT_RGB555

record camera_fb_t =
  buf :: "u8 list option"
  width :: nat
  height :: nat
  format :: pixformat_t

definition len :: "camera_fb_t \<Rightarrow> nat" where
  "len fb = (case buf fb of None \<Rightarrow> 0 | Some bytes \<Rightarrow> length bytes)"

text \<open>
  The body of the inner loop for one destination pixel:
  \<^verbatim>\<open>uint8_t pix = gray[srcRow + srcX];
  if (pix > threshold) { idx = (y * BMP_W + x) >> 3; bit = 7 - (x & 7);
                         bitmapBuffer[idx] |= (1 << bit); }\<close>
\<close>

definition convert_pixel :: "u8 list \<Rightarrow> u8 \<Rightarrow> nat \<Rightarrow> int \<Rightarrow> nat \<Rightarrow> u8 list \<Rightarrow> u8 list" where
  "convert_pixel gray threshold y srcRow x bmp =
     (let pix = gray ! nat (srcRow + srcX x)
      in if threshold < pix
         then let idx = drop_bit 3 (y * BMP_W + x); b = 7 - (x AND 7)
              in bmp[idx := (bmp ! idx) OR push_bit b 1]
         else bmp)"

text \<open>The body of the outer loop: one destination row.\<close>

definition convert_row :: "u8 list \<Rightarrow> u8 \<Rightarrow> nat \<Rightarrow> u8 list \<Rightarrow> u8 list" where
  "convert_row gray threshold y bmp =
     (let srcRow = srcY y * 96
      in fold (convert_pixel gray threshold y srcRow) [0..<BMP_W] bmp)"

text \<open>
  \<^verbatim>\<open>convertFrameToBitmap(fb)\<close> acts on the global \<^verbatim>\<open>bitmapBuffer\<close>, which is passed in and
  returned. The guard returns early and leaves the buffer alone; otherwise the buffer
  is zeroed (\<^verbatim>\<open>memset\<close> over its static size) and the two loops run.
\<close>

definition convertFrameToBitmap :: "camera_fb_t option \<Rightarrow> u8 list \<Rightarrow> u8 list" where
  "convertFrameToBitmap fbp bitmapBuffer =
     (case fbp of
        None \<Rightarrow> bitmapBuffer
      | Some fb \<Rightarrow>
          (case buf fb of
             None \<Rightarrow> bitmapBuffer
           | Some gray \<Rightarrow>
               if len fb < 96 * 96 then bitmapBuffer
               else fold (convert_row gray BRIGHTNESS_THRESHOLD) [0..<BMP_H]
                      (replicate (BMP_W * BMP_H div 8) 0)))"

section \<open>Program state and devices\<close>

text \<open>
  Calls into the camera driver, the display driver, the I2C bus, the GPIO pins and the
  scheduler are recorded, in program order, in \<open>trace\<close>; lines written to the serial
  diagnostic channel are recorded in \<open>serial\<close>. Banner lines and memory reports, which
  depend on nothing in the program state, are left out of \<open>serial\<close>.
\<close>

text \<open>
  \<^verbatim>\<open>esp_err_t\<close> is an integer code. The named codes are those the sketch tests for;
  \<open>ESP_ERR_OTHER c\<close> is any other code, \<open>c\<close> being its value read as unsigned.
\<close>

datatype esp_err_t =
  ESP_OK | ESP_ERR_NO_MEM | ESP_ERR_INVALID_ARG | ESP_FAIL | ESP_ERR_OTHER nat

datatype event =
    PinModeOutput nat
  | DigitalWrite nat bool
  | Delay nat
  | WireBegin nat nat
  | WireSetClock nat
  | WireProbe nat
  | DisplayBegin nat
  | DisplayClear
  | DisplayPrint string
  | DisplayCounters u32 u32
  | DrawLine nat nat nat nat
  | DrawBitmap nat nat "u8 list" nat nat nat
  | DisplayFlush
  | CameraInit
  | CameraDeinit
  | SensorTune
  | FbGet
  | FbReturn
  | Yield

datatype diag =
    Line string
  | InitAttemptFailed nat esp_err_t
  | Stats u32 u32 f32

record sketch_state =
  bitmapBuffer :: "u8 list"
  frameCount :: u32
  errorCount :: u32
  cameraInitialized :: bool
  trace :: "event list"
  serial :: "diag list"

definition initial_state :: sketch_state where
  "initial_state =
     \<lparr>bitmapBuffer = replicate (BMP_W * BMP_H div 8) 0, frameCount = 0, errorCount = 0,
      cameraInitialized = False, trace = [], serial = []\<rparr>"

definition emit :: "event list \<Rightarrow> sketch_state \<Rightarrow> sketch_state" where
  "emit es s = s\<lparr>trace := trace s @ es\<rparr>"

definition println :: "diag list \<Rightarrow> sketch_state \<Rightarrow> sketch_state" where
  "println ds s = s\<lparr>serial := serial s @ ds\<rparr>"

text \<open>
  What the devices answer: whether the I2C probe is acknowledged, whether the display
  driver starts, the result of the n-th call of \<^verbatim>\<open>esp_camera_init\<close> (counted from 1),
  whether \<^verbatim>\<open>esp_camera_sensor_get\<close> returns a sensor, and for the n-th run of \<^verbatim>\<open>loop\<close>
  (counted from 0) the frame returned by \<^verbatim>\<open>esp_camera_fb_get\<close> and the two readings of
  \<^verbatim>\<open>millis\<close>.
\<close>

record hardware =
  probe_ack :: bool
  display_begin_ok :: bool
  camera_init_result :: "nat \<Rightarrow> esp_err_t"
  sensor_available :: bool
  fb_get :: "nat \<Rightarrow> camera_fb_t option"
  millis_start :: "nat \<Rightarrow> u32"
  millis_end :: "nat \<Rightarrow> u32"

section \<open>Camera initialisation\<close>

definition PWDN_GPIO_NUM :: nat where "PWDN_GPIO_NUM = 32"
definition OLED_ADDR :: nat where "OLED_ADDR = 60"

text \<open>
  \<^verbatim>\<open>%x\<close> for a 32-bit value: lower-case hexadecimal without leading zeros, at most
  eight digits.
\<close>

definition hex_digit :: "nat \<Rightarrow> char" where
  "hex_digit d = ''0123456789abcdef'' ! d"

fun hex :: "nat \<Rightarrow> nat \<Rightarrow> string" where
  "hex 0 v = []"
| "hex (Suc k) v = (if v < 16 then [hex_digit v] else hex k (v div 16) @ [hex_digit (v mod 16)])"

text \<open>
  The \<^verbatim>\<open>switch (err)\<close> of \<^verbatim>\<open>initCamera\<close>; its default branch prints the code, which is
  0 for \<^verbatim>\<open>ESP_OK\<close>.
\<close>

definition classify :: "esp_err_t \<Rightarrow> string" where
  "classify err =
     (case err of
        ESP_ERR_NO_MEM \<Rightarrow> ''  -> Out of memory (DRAM insufficient)''
      | ESP_ERR_INVALID_ARG \<Rightarrow> ''  -> Invalid camera configuration''
      | ESP_FAIL \<Rightarrow> ''  -> Camera hardware failure''
      | ESP_OK \<Rightarrow> ''  -> Unknown error: 0x0''
      | ESP_ERR_OTHER c \<Rightarrow> ''  -> Unknown error: 0x'' @ hex 8 (c mod 2 ^ 32))"

text \<open>
  The retry loop of \<^verbatim>\<open>initCamera\<close>, \<^verbatim>\<open>for (attempt = 1; attempt <= MAX_RETRIES; attempt++)\<close>,
  entered at \<open>attempt\<close>. It returns from inside on \<^verbatim>\<open>ESP_OK\<close>; falling out of the loop
  is the failure return. \<open>SensorTune\<close> stands for the fourteen setter calls on the sensor.
\<close>

function init_attempts ::
  "(nat \<Rightarrow> esp_err_t) \<Rightarrow> bool \<Rightarrow> nat \<Rightarrow> sketch_state \<Rightarrow> bool \<times> sketch_state" where
  "init_attempts cam sens attempt s =
     (if attempt \<le> MAX_RETRIES
      then (if cam attempt = ESP_OK
            then (True, (emit (CameraInit # (if sens then [SensorTune] else [])) s)
                          \<lparr>cameraInitialized := True\<rparr>)
            else init_attempts cam sens (attempt + 1)
                   ((if attempt < MAX_RETRIES
                     then emit [Delay (attempt * 1000), CameraDeinit, Delay 500]
                     else id)
                      (println [InitAttemptFailed attempt (cam attempt),
                                Line (classify (cam attempt))]
                         (emit [CameraInit] s))))
      else (False, println [Line ''Camera initialization failed after all attempts!''] s))"
  by pat_completeness auto
termination
  by (relation "measure (\<lambda>(cam, sens, attempt, s). MAX_RETRIES + 1 - attempt)") auto

definition initCamera :: "hardware \<Rightarrow> sketch_state \<Rightarrow> bool \<times> sketch_state" where
  "initCamera hw s =
     init_attempts (camera_init_result hw) (sensor_available hw) 1
       (emit [PinModeOutput PWDN_GPIO_NUM, DigitalWrite PWDN_GPIO_NUM True, Delay 100,
              DigitalWrite PWDN_GPIO_NUM False, Delay 100] s)"

section \<open>Per-frame processing and the main loop\<close>

definition displayStatus :: "string \<Rightarrow> bool \<Rightarrow> sketch_state \<Rightarrow> sketch_state" where
  "displayStatus message showStats s =
     emit ([DisplayClear, DisplayPrint ''ESP32-CAM Status:'', DisplayPrint message]
           @ (if showStats then [DisplayCounters (frameCount s) (errorCount s)] else [])
           @ [DisplayFlush]) s"

definition processFrame :: "camera_fb_t option \<Rightarrow> sketch_state \<Rightarrow> bool \<times> sketch_state" where
  "processFrame fbp s =
     (if \<not> cameraInitialized s then (False, s)
      else
        (case fbp of
           None \<Rightarrow> (False, (emit [FbGet] s)\<lparr>errorCount := errorCount s + 1\<rparr>)
         | Some fb \<Rightarrow>
             if width fb \<noteq> 96 \<or> height fb \<noteq> 96 \<or> format fb \<noteq> PIXFORMAT_GRAYSCALE
             then (False, (emit [FbGet, FbReturn] s)\<lparr>errorCount := errorCount s + 1\<rparr>)
             else
               (let bmp = convertFrameToBitmap (Some fb) (bitmapBuffer s)
                in (True,
                    (emit [FbGet, FbReturn, DisplayClear,
                           DrawBitmap 0 0 bmp BMP_W BMP_H 1, DisplayFlush] s)
                      \<lparr>bitmapBuffer := bmp, frameCount := frameCount s + 1\<rparr>))))"

text \<open>
  \<^verbatim>\<open>float errorRate = (float)errorCount / (frameCount + errorCount) * 100.0f;\<close>
  The sum is a 32-bit unsigned sum, converted to float for the division.
\<close>

definition errorRate :: "u32 \<Rightarrow> u32 \<Rightarrow> f32" where
  "errorRate fc ec = f32_mul (f32_div (u32_to_f32 ec) (u32_to_f32 (fc + ec))) (Finite 100)"

text \<open>
  One run of \<^verbatim>\<open>loop()\<close>. \<open>fbp\<close> is what \<^verbatim>\<open>esp_camera_fb_get\<close> returns if it is called;
  \<open>startTime\<close> and \<open>endTime\<close> are the two readings of \<^verbatim>\<open>millis()\<close>.
\<close>

definition loop :: "camera_fb_t option \<Rightarrow> u32 \<Rightarrow> u32 \<Rightarrow> sketch_state \<Rightarrow> sketch_state" where
  "loop fbp startTime endTime s =
     (let s1 = snd (processFrame fbp s);
          s2 = (if 0 < frameCount s1 \<and> frameCount s1 mod 100 = 0
                then println [Stats (frameCount s1) (errorCount s1)
                                (errorRate (frameCount s1) (errorCount s1))] s1
                else s1);
          processingTime = endTime - startTime;
          s3 = (if processingTime < FRAME_DELAY_MS
                then emit [Delay (unat (FRAME_DELAY_MS - processingTime))] s2
                else s2);
          s4 = emit [Yield] s3
      in if 1000 < errorCount s4
         then (println [Line ''Resetting error counter...''] s4)\<lparr>errorCount := 0\<rparr>
         else s4)"

section \<open>Start-up\<close>

text \<open>
  The two outcomes of the I2C probe in \<^verbatim>\<open>setup\<close>
  (\<^verbatim>\<open>Wire.beginTransmission(OLED_ADDR); if (Wire.endTransmission() == 0) ... else ...\<close>):
  both branches only print.
\<close>

definition probe_report :: "bool \<Rightarrow> diag list" where
  "probe_report ack =
     (if ack then [Line ''I2C device found at address 0x3C'']
      else [Line ''No I2C device found at address 0x3C'', Line ''Check OLED wiring!''])"

definition testOLED :: "sketch_state \<Rightarrow> sketch_state" where
  "testOLED s =
     emit ([DisplayClear]
           @ map DisplayPrint [''OLED Test Pattern'', ''ESP32-CAM Ready'', ''================'',
                               ''Line 4'', ''Line 5'', ''Line 6'', ''Line 7'', ''Line 8'']
           @ [DisplayFlush, Delay 2000, DisplayClear]
           @ map (\<lambda>j. DrawLine (8 * j) 0 (8 * j) (BMP_H - 1)) [0..<BMP_W div 8]
           @ [DisplayFlush, Delay 1000, DisplayClear]
           @ map (\<lambda>j. DrawLine 0 (8 * j) (BMP_W - 1) (8 * j)) [0..<BMP_H div 8]
           @ [DisplayFlush, Delay 1000]) s"

text \<open>
  \<^verbatim>\<open>setup()\<close> either returns, after which the Arduino core calls \<^verbatim>\<open>loop()\<close> for ever, or
  enters one of its two \<^verbatim>\<open>while (true)\<close> loops, neither of which has an exit. The
  program point reached is the \<open>phase\<close>.
\<close>

datatype phase = OledHalt | CameraHalt | Looping

definition setup_sketch :: "hardware \<Rightarrow> sketch_state \<Rightarrow> phase \<times> sketch_state" where
  "setup_sketch hw s =
     (let s1 = emit [Delay 3000, WireBegin 15 14, WireSetClock 400000, WireProbe OLED_ADDR] s;
          s2 = println (probe_report (probe_ack hw)) s1;
          s3 = emit [DisplayBegin OLED_ADDR] s2
      in if \<not> display_begin_ok hw
         then (OledHalt, println [Line ''OLED initialization failed!''] s3)
         else
           (let s4 = displayStatus ''Initializing camera...'' False
                       (testOLED (emit [DisplayClear, DisplayFlush] s3));
                (ok, s5) = initCamera hw s4
            in if \<not> ok
               then (CameraHalt,
                     println [Line ''=== CAMERA INITIALIZATION FAILED ==='']
                       (displayStatus (''Camera FAILED!'' @ CHR 0x0A # ''PSRAM issue detected'') False s5))
               else (Looping,
                     println [Line ''=== System Ready ==='']
                       (emit [Delay 2000]
                          (displayStatus (''System ready!'' @ CHR 0x0A # ''Streaming...'') False s5)))))"

text \<open>One pass through the body of each of the three unbounded loops.\<close>

definition oled_halt_body :: "sketch_state \<Rightarrow> sketch_state" where
  "oled_halt_body s = println [Line ''OLED init failed - system halted''] (emit [Delay 5000] s)"

definition camera_halt_body :: "sketch_state \<Rightarrow> sketch_state" where
  "camera_halt_body s =
     emit [Delay 10000]
       (displayStatus (''Hardware DEFECT!'' @ CHR 0x0A # ''PSRAM faulty'' @ CHR 0x0A
           # ''Try different module'') True
          (emit [Delay 10000] s))"

text \<open>
  The whole program after \<open>n\<close> passes through whichever unbounded loop it is in. None of
  the three loops has an exit, so the phase reached by \<^verbatim>\<open>setup\<close> is kept.
\<close>

fun run :: "hardware \<Rightarrow> nat \<Rightarrow> phase \<times> sketch_state" where
  "run hw 0 = setup_sketch hw initial_state"
| "run hw (Suc n) =
     (case run hw n of
        (OledHalt, s) \<Rightarrow> (OledHalt, oled_halt_body s)
      | (CameraHalt, s) \<Rightarrow> (CameraHalt, camera_halt_body s)
      | (Looping, s) \<Rightarrow> (Looping, loop (fb_get hw n) (millis_start hw n) (millis_end hw n) s))"

section \<open>Vocabulary of the claims\<close>

text \<open>
  A frame fails in \<^verbatim>\<open>processFrame\<close> when none is acquired or when its declared size or
  pixel format is not 96x96 grayscale: the two early returns that count an error.
\<close>

definition frame_failed :: "camera_fb_t option \<Rightarrow> bool" where
  "frame_failed fbp =
     (case fbp of
        None \<Rightarrow> True
      | Some fb \<Rightarrow> width fb \<noteq> 96 \<or> height fb \<noteq> 96 \<or> format fb \<noteq> PIXFORMAT_GRAYSCALE)"

fun is_display_event :: "event \<Rightarrow> bool" where
  "is_display_event DisplayClear = True"
| "is_display_event (DisplayPrint _) = True"
| "is_display_event (DisplayCounters _ _) = True"
| "is_display_event (DrawLine _ _ _ _) = True"
| "is_display_event (DrawBitmap _ _ _ _ _ _) = True"
| "is_display_event DisplayFlush = True"
| "is_display_event _ = False"

text \<open>The events and lines that a step adds to what was recorded before it.\<close>

definition new_events :: "sketch_state \<Rightarrow> sketch_state \<Rightarrow> event list" where
  "new_events s s' = drop (length (trace s)) (trace s')"

definition new_lines :: "sketch_state \<Rightarrow> sketch_state \<Rightarrow> diag list" where
  "new_lines s s' = drop (length (serial s)) (serial s')"

text \<open>A state with its serial log forgotten: everything but what was printed.\<close>

definition silent :: "sketch_state \<Rightarrow> sketch_state" where
  "silent s = s\<lparr>serial := []\<rparr>"

text \<open>The error rates of the statistics lines among some serial lines.\<close>

fun reported_rates :: "diag list \<Rightarrow> f32 list" where
  "reported_rates [] = []"
| "reported_rates (Stats fc ec r # ds) = r # reported_rates ds"
| "reported_rates (_ # ds) = reported_rates ds"

text \<open>The kinds of event that the retry loop of \<^verbatim>\<open>initCamera\<close> can add.\<close>

fun is_retry_event :: "event \<Rightarrow> bool" where
  "is_retry_event CameraInit = True"
| "is_retry_event CameraDeinit = True"
| "is_retry_event SensorTune = True"
| "is_retry_event (Delay _) = True"
| "is_retry_event _ = False"

text \<open>The pin sequence at the head of \<^verbatim>\<open>initCamera\<close>.\<close>

definition power_cycle :: "event list" where
  "power_cycle = [PinModeOutput PWDN_GPIO_NUM, DigitalWrite PWDN_GPIO_NUM True, Delay 100,
              DigitalWrite PWDN_GPIO_NUM False, Delay 100]"

text \<open>
  Three boards used as concrete inputs: one whose first camera initialisation fails and
  whose second succeeds (its I2C probe is not acknowledged, but its display driver
  starts), one whose camera never initialises, and one whose display driver fails.
\<close>

definition hw_retry_once :: hardware where
  "hw_retry_once =
     \<lparr>probe_ack = False, display_begin_ok = True,
      camera_init_result = (\<lambda>n. if n = 1 then ESP_FAIL else ESP_OK),
      sensor_available = True, fb_get = (\<lambda>n. None),
      millis_start = (\<lambda>n. 0), millis_end = (\<lambda>n. 0)\<rparr>"

definition hw_camera_dead :: hardware where
  "hw_camera_dead =
     \<lparr>probe_ack = True, display_begin_ok = True,
      camera_init_result = (\<lambda>n. ESP_ERR_NO_MEM),
      sensor_available = True, fb_get = (\<lambda>n. None),
      millis_start = (\<lambda>n. 0), millis_end = (\<lambda>n. 0)\<rparr>"

definition hw_no_display :: hardware where
  "hw_no_display =
     \<lparr>probe_ack = False, display_begin_ok = False,
      camera_init_result = (\<lambda>n. ESP_OK),
      sensor_available = True, fb_get = (\<lambda>n. None),
      millis_start = (\<lambda>n. 0), millis_end = (\<lambda>n. 0)\<rparr>"

section \<open>Rounding is exact on short dyadic values\<close>

lemma round_even_of_int: "round_even (of_int n) = n"
  by (simp add: round_even_def)


lemma bitlen_powi:
  assumes "0 < a"
  shows "(2::rat) powi (bitlen a - 1) \<le> of_int a" and "of_int a < (2::rat) powi (bitlen a)"
proof -
  from bitlen_bounds[OF assms]
  have lo: "2 ^ nat (bitlen a - 1) \<le> a" and hi: "a < 2 ^ nat (bitlen a)" by auto
  have ge1: "1 \<le> bitlen a" using assms by (simp add: bitlen_alt_def)
  have "(2::rat) powi (bitlen a - 1) = of_int (2 ^ nat (bitlen a - 1))"
    using ge1 by (simp add: power_int_def)
  also have "\<dots> \<le> of_int a" using lo by (simp only: of_int_le_iff)
  finally show "(2::rat) powi (bitlen a - 1) \<le> of_int a" .
  have "(of_int a :: rat) < of_int (2 ^ nat (bitlen a))" using hi by (simp only: of_int_less_iff)
  also have "\<dots> = 2 powi (bitlen a)" using ge1 by (simp add: power_int_def)
  finally show "of_int a < (2::rat) powi (bitlen a)" .
qed

lemma f32_exponent_bounds:
  assumes "0 < q"
  shows "2 powi (f32_exponent q) \<le> q \<and> q < 2 powi (f32_exponent q + 1)"
proof -
  obtain a b where ab: "quotient_of q = (a, b)" by (cases "quotient_of q")
  have bpos: "0 < b" using ab by (rule quotient_of_denom_pos)
  have qdiv: "q = of_int a / of_int b" using ab by (rule quotient_of_div)
  have apos: "0 < a" using assms bpos qdiv by (simp add: zero_less_divide_iff)
  let ?d = "bitlen a - bitlen b"
  note A = bitlen_powi[OF apos] and B = bitlen_powi[OF bpos]
  have bpos': "(0::rat) < of_int b" using bpos by simp
  have "q < 2 powi (bitlen a) / of_int b"
    unfolding qdiv using A(2) bpos' by (simp add: divide_strict_right_mono)
  also have "\<dots> \<le> 2 powi (bitlen a) / 2 powi (bitlen b - 1)"
    using B(1) by (intro divide_left_mono) (auto intro!: mult_pos_pos bpos')
  also have "\<dots> = 2 powi (bitlen a - (bitlen b - 1))"
    by (subst power_int_diff) simp_all
  also have "bitlen a - (bitlen b - 1) = ?d + 1" by simp
  finally have up: "q < 2 powi (?d + 1)" .
  have "?d - 1 = (bitlen a - 1) - bitlen b" by simp
  also have "(2::rat) powi \<dots> = 2 powi (bitlen a - 1) / 2 powi (bitlen b)"
    by (subst power_int_diff) simp_all
  also have "\<dots> \<le> of_int a / 2 powi (bitlen b)"
    using A(1) by (simp add: divide_right_mono)
  also have "\<dots> \<le> of_int a / of_int b"
    using B(2) apos bpos' by (intro divide_left_mono) (auto intro!: mult_pos_pos)
  finally have lo: "2 powi (?d - 1) \<le> q" unfolding qdiv .
  show ?thesis
  proof (cases "2 powi ?d \<le> q")
    case True
    then show ?thesis using up by (simp add: f32_exponent_def ab)
  next
    case False
    then show ?thesis using lo by (simp add: f32_exponent_def ab)
  qed
qed


lemma f32_round_exact:
  assumes "0 < m" "m < 2 ^ 24"
  shows "f32_round (of_int m * 2 powi k) = of_int m * 2 powi k"
proof -
  let ?q = "of_int m * (2::rat) powi k"
  have qpos: "0 < ?q" using assms by simp
  let ?e = "f32_exponent ?q"
  have "2 powi ?e \<le> ?q" using f32_exponent_bounds[OF qpos] by simp
  also have "?q < 2 ^ 24 * 2 powi k"
  proof -
    have "(of_int m :: rat) < of_int (2 ^ 24)" using assms(2) by (simp only: of_int_less_iff)
    then show ?thesis by simp
  qed
  also have "\<dots> = 2 powi (24 + k)" by (simp add: power_int_add)
  finally have lt: "(2::rat) powi ?e < 2 powi (24 + k)" .
  have "?e < 24 + k"
  proof (rule ccontr)
    assume "\<not> ?e < 24 + k"
    then have "(2::rat) powi (24 + k) \<le> 2 powi ?e"
      by (intro power_int_increasing) auto
    with lt show False by simp
  qed
  then have elt: "?e - 23 \<le> k" by simp
  define j where "j = nat (k - (?e - 23))"
  have j: "k - (?e - 23) = int j" using elt by (simp add: j_def)
  have "?q / 2 powi (?e - 23) = of_int m * 2 powi (k - (?e - 23))"
    by (simp add: power_int_diff)
  also have "\<dots> = of_int (m * 2 ^ j)" unfolding j by simp
  finally have "round_even (?q / 2 powi (?e - 23)) = m * 2 ^ j"
    by (simp only: round_even_of_int)
  then have "f32_round ?q = of_int (m * 2 ^ j) * 2 powi (?e - 23)"
    using qpos by (simp add: f32_round_def Let_def)
  also have "\<dots> = of_int m * (2 powi (int j) * 2 powi (?e - 23))" by simp
  also have "2 powi (int j) * (2::rat) powi (?e - 23) = 2 powi k"
    unfolding j[symmetric] by (simp add: power_int_add[symmetric])
  finally show ?thesis .
qed

lemma f32_round_of_nat:
  assumes "n < 2 ^ 24"
  shows "f32_round (of_nat n) = of_nat n"
proof (cases "n = 0")
  case True
  then show ?thesis by (simp add: f32_round_def)
next
  case False
  then have "0 < int n" "int n < 2 ^ 24" using assms by auto
  from f32_round_exact[OF this, of 0] show ?thesis by simp
qed

lemma f32_round_quarters:
  assumes "n < 2 ^ 24"
  shows "f32_round (of_nat n / 4) = of_nat n / 4"
proof (cases "n = 0")
  case True
  then show ?thesis by (simp add: f32_round_def)
next
  case False
  then have "0 < int n" "int n < 2 ^ 24" using assms by auto
  from f32_round_exact[OF this, of "- 2"] show ?thesis by (simp add: power_int_minus)
qed

lemma f32_round_halves:
  assumes "n < 2 ^ 24"
  shows "f32_round (of_nat n / 2) = of_nat n / 2"
proof (cases "n = 0")
  case True
  then show ?thesis by (simp add: f32_round_def)
next
  case False
  then have "0 < int n" "int n < 2 ^ 24" using assms by auto
  from f32_round_exact[OF this, of "- 1"] show ?thesis by (simp add: power_int_minus)
qed

lemma scaleX_eq: "scaleX = 3 / 4"
proof -
  have "f32_round (of_nat BMP_W) = of_nat BMP_W"
    by (rule f32_round_of_nat) (simp add: BMP_W_def)
  moreover have "f32_round (of_nat 3 / 4) = of_nat 3 / 4"
    by (rule f32_round_quarters) simp
  ultimately show ?thesis by (simp add: scaleX_def BMP_W_def)
qed

lemma scaleY_eq: "scaleY = 3 / 2"
proof -
  have "f32_round (of_nat BMP_H) = of_nat BMP_H"
    by (rule f32_round_of_nat) (simp add: BMP_H_def)
  moreover have "f32_round (of_nat 3 / 2) = of_nat 3 / 2"
    by (rule f32_round_halves) simp
  ultimately show ?thesis by (simp add: scaleY_def BMP_H_def)
qed

lemma srcX_eq:
  assumes "x < 128"
  shows "srcX x = (int x * 96) div 128"
proof -
  have a: "f32_round (of_nat x) = of_nat x"
    by (rule f32_round_of_nat) (use assms in simp)
  have e1: "f32_round (of_nat (3 * x) / 4) = of_nat (3 * x) / 4"
    by (rule f32_round_quarters) (use assms in simp)
  have e2: "of_nat x * scaleX = (of_nat (3 * x) / 4 :: rat)"
    by (simp add: scaleX_eq)
  have b: "f32_round (of_nat x * scaleX) = of_int (3 * int x) / of_int 4"
    unfolding e2 e1 by simp
  have c: "f32_to_int (of_int (3 * int x) / of_int 4) = (3 * int x) div 4"
    unfolding f32_to_int_def by (simp only: floor_divide_of_int_eq) simp
  have lt: "\<not> 96 \<le> (3 * int x) div 4" using assms by linarith
  have "srcX x = (3 * int x) div 4"
    unfolding srcX_def a b c Let_def by (simp only: lt if_False)
  also have "\<dots> = (32 * (3 * int x)) div (32 * 4)"
    by (rule div_mult_mult1[symmetric]) simp
  also have "\<dots> = (int x * 96) div 128" by (simp add: mult.commute)
  finally show ?thesis .
qed

lemma srcY_eq:
  assumes "y < 64"
  shows "srcY y = (int y * 96) div 64"
proof -
  have a: "f32_round (of_nat y) = of_nat y"
    by (rule f32_round_of_nat) (use assms in simp)
  have e1: "f32_round (of_nat (3 * y) / 2) = of_nat (3 * y) / 2"
    by (rule f32_round_halves) (use assms in simp)
  have e2: "of_nat y * scaleY = (of_nat (3 * y) / 2 :: rat)"
    by (simp add: scaleY_eq)
  have b: "f32_round (of_nat y * scaleY) = of_int (3 * int y) / of_int 2"
    unfolding e2 e1 by simp
  have c: "f32_to_int (of_int (3 * int y) / of_int 2) = (3 * int y) div 2"
    unfolding f32_to_int_def by (simp only: floor_divide_of_int_eq) simp
  have lt: "\<not> 96 \<le> (3 * int y) div 2" using assms by linarith
  have "srcY y = (3 * int y) div 2"
    unfolding srcY_def a b c Let_def by (simp only: lt if_False)
  also have "\<dots> = (32 * (3 * int y)) div (32 * 2)"
    by (rule div_mult_mult1[symmetric]) simp
  also have "\<dots> = (int y * 96) div 64" by (simp add: mult.commute)
  finally show ?thesis .
qed

section \<open>The converted bitmap, bit by bit\<close>

lemma and_7_eq_mod: "(x::nat) AND 7 = x mod 8"
proof -
  have "(7::nat) = mask 3" by (simp add: mask_eq_exp_minus_1)
  then have "x AND 7 = take_bit 3 x" by (simp only: take_bit_eq_mask)
  then show ?thesis by (simp add: take_bit_eq_mod)
qed

lemma bit_or_single:
  assumes "b < 8"
  shows "bit ((w::u8) OR 2 ^ b) k \<longleftrightarrow> bit w k \<or> k = b"
  using assms by (auto simp: bit_or_iff bit_exp_iff)

lemma length_convert_pixel [simp]:
  "length (convert_pixel gray T y srcRow x bmp) = length bmp"
  by (simp add: convert_pixel_def Let_def)

lemma convert_pixel_bit:
  assumes "x < 128" "y < 64" "length bmp = 1024" "i < 1024"
  shows "bit (convert_pixel gray T y srcRow x bmp ! i) k \<longleftrightarrow>
           bit (bmp ! i) k \<or>
           (i = (y * 128 + x) div 8 \<and> k = 7 - x mod 8 \<and> T < gray ! nat (srcRow + srcX x))"
proof -
  have idx: "(y * 128 + x) div 8 < 1024" using assms(1,2) by simp
  have b: "7 - x mod 8 < 8" by simp
  show ?thesis
    using assms(3,4) idx
    by (auto simp: convert_pixel_def Let_def BMP_W_def drop_bit_eq_div and_7_eq_mod
        nth_list_update bit_or_single[OF b])
qed

lemma fold_convert_pixel:
  assumes "\<forall>x\<in>set xs. x < 128" "y < 64" "length bmp = 1024" "i < 1024"
  shows "length (fold (convert_pixel gray T y srcRow) xs bmp) = 1024 \<and>
         (bit (fold (convert_pixel gray T y srcRow) xs bmp ! i) k \<longleftrightarrow>
           bit (bmp ! i) k \<or>
           (\<exists>x\<in>set xs. i = (y * 128 + x) div 8 \<and> k = 7 - x mod 8 \<and>
                         T < gray ! nat (srcRow + srcX x)))"
  using assms
proof (induction xs arbitrary: bmp)
  case Nil
  then show ?case by simp
next
  case (Cons x xs)
  let ?b = "convert_pixel gray T y srcRow x bmp"
  have x: "x < 128" and xs: "\<forall>x\<in>set xs. x < 128" using Cons.prems(1) by auto
  have len: "length ?b = 1024" using Cons.prems(3) by simp
  note IH = Cons.IH[OF xs Cons.prems(2) len Cons.prems(4)]
  note P = convert_pixel_bit[OF x Cons.prems(2) Cons.prems(3) Cons.prems(4), of gray T srcRow k]
  show ?case using IH P by auto
qed

lemma convert_row_bit:
  assumes "y < 64" "length bmp = 1024" "i < 1024"
  shows "length (convert_row gray T y bmp) = 1024 \<and>
         (bit (convert_row gray T y bmp ! i) k \<longleftrightarrow>
           bit (bmp ! i) k \<or>
           (\<exists>x<128. i = (y * 128 + x) div 8 \<and> k = 7 - x mod 8 \<and>
                      T < gray ! nat (srcY y * 96 + srcX x)))"
proof -
  have "\<forall>x\<in>set [0..<BMP_W]. x < 128" by (simp add: BMP_W_def)
  from fold_convert_pixel[OF this assms, of gray T "srcY y * 96" k]
  show ?thesis by (auto simp: convert_row_def Let_def BMP_W_def)
qed

lemma fold_convert_row:
  assumes "\<forall>y\<in>set ys. y < 64" "length bmp = 1024" "i < 1024"
  shows "length (fold (convert_row gray T) ys bmp) = 1024 \<and>
         (bit (fold (convert_row gray T) ys bmp ! i) k \<longleftrightarrow>
           bit (bmp ! i) k \<or>
           (\<exists>y\<in>set ys. \<exists>x<128. i = (y * 128 + x) div 8 \<and> k = 7 - x mod 8 \<and>
                      T < gray ! nat (srcY y * 96 + srcX x)))"
  using assms
proof (induction ys arbitrary: bmp)
  case Nil
  then show ?case by simp
next
  case (Cons y ys)
  let ?b = "convert_row gray T y bmp"
  have y: "y < 64" and ys: "\<forall>y\<in>set ys. y < 64" using Cons.prems(1) by auto
  note R = convert_row_bit[OF y Cons.prems(2) Cons.prems(3), of gray T k]
  then have len: "length ?b = 1024" by simp
  note IH = Cons.IH[OF ys len Cons.prems(3)]
  show ?case using IH R by auto
qed

lemma pixel_position_unique:
  assumes "x < 128" "x' < (128::nat)"
    and "(y * 128 + x) div 8 = (y' * 128 + x') div 8" and "7 - x mod 8 = 7 - x' mod 8"
  shows "x = x' \<and> y = y'"
proof -
  have "x mod 8 < 8" "x' mod 8 < 8" by simp_all
  with assms(4) have m: "x mod 8 = x' mod 8" by linarith
  have r: "(y * 128 + x) mod 8 = x mod 8" "(y' * 128 + x') mod 8 = x' mod 8"
    using mod_mult_self4[of 8 "16 * y" x] mod_mult_self4[of 8 "16 * y'" x']
    by (simp_all add: mult.commute)
  have "y * 128 + x = 8 * ((y * 128 + x) div 8) + (y * 128 + x) mod 8"
    by (simp only: mult_div_mod_eq)
  also have "\<dots> = 8 * ((y' * 128 + x') div 8) + (y' * 128 + x') mod 8"
    by (simp only: assms(3) r m)
  also have "\<dots> = y' * 128 + x'"
    by (simp only: mult_div_mod_eq)
  finally have e: "y * 128 + x = y' * 128 + x'" .
  have "\<not> y < y'" "\<not> y' < y" using e assms(1,2) by linarith+
  then have "y = y'" by simp
  with e show ?thesis by simp
qed

lemma converted_bit:
  assumes "x < 128" "y < 64"
  shows "bit (fold (convert_row gray T) [0..<BMP_H] (replicate (BMP_W * BMP_H div 8) 0)
               ! ((y * 128 + x) div 8)) (7 - x mod 8)
         \<longleftrightarrow> T < gray ! nat (srcY y * 96 + srcX x)"
proof -
  let ?z = "replicate (BMP_W * BMP_H div 8) (0::u8)"
  let ?i = "(y * 128 + x) div 8"
  have i: "?i < 1024" using assms by simp
  have ys: "\<forall>y\<in>set [0..<BMP_H]. y < 64" by (simp add: BMP_H_def)
  have len: "length ?z = 1024" by (simp add: BMP_W_def BMP_H_def)
  have z: "\<not> bit (?z ! ?i) (7 - x mod 8)" using i by (simp add: BMP_W_def BMP_H_def)
  from fold_convert_row[OF ys len i, of gray T "7 - x mod 8"] z
  have "bit (fold (convert_row gray T) [0..<BMP_H] ?z ! ?i) (7 - x mod 8) \<longleftrightarrow>
        (\<exists>y'<64. \<exists>x'<128. ?i = (y' * 128 + x') div 8 \<and> 7 - x mod 8 = 7 - x' mod 8 \<and>
                      T < gray ! nat (srcY y' * 96 + srcX x'))"
    by (auto simp: BMP_H_def)
  also have "\<dots> \<longleftrightarrow> T < gray ! nat (srcY y * 96 + srcX x)"
    using assms pixel_position_unique[OF assms(1)] by metis
  finally show ?thesis .
qed

section \<open>Claims about the frame converter\<close>

text \<open>
  C2. For every destination pixel \<open>(x, y)\<close> with \<open>x < 128\<close> and \<open>y < 64\<close> the source indices
  computed by \<^verbatim>\<open>convertFrameToBitmap\<close> are \<open>srcX = \<lfloor>x * 96 / 128\<rfloor>\<close> and
  \<open>srcY = \<lfloor>y * 96 / 64\<rfloor>\<close>, both between 0 and 95, so that the sampled index
  \<open>srcY * 96 + srcX\<close> lies inside the 96x96 frame; \<open>x = 127\<close> gives \<open>srcX = 95\<close> and
  \<open>y = 63\<close> gives \<open>srcY \<le> 95\<close>. The float products are exact, and the clamp never fires.
\<close>

theorem source_index_in_range:
  assumes "x < BMP_W" and "y < BMP_H"
  shows "srcX x = (int x * 96) div 128 \<and> srcY y = (int y * 96) div 64
         \<and> 0 \<le> srcX x \<and> srcX x \<le> 95 \<and> 0 \<le> srcY y \<and> srcY y \<le> 95
         \<and> nat (srcY y * 96 + srcX x) < 96 * 96
         \<and> srcX 127 = 95 \<and> srcY 63 \<le> 95"
proof -
  have x: "x < 128" and y: "y < 64" using assms by (simp_all add: BMP_W_def BMP_H_def)
  have sx: "srcX x = (int x * 96) div 128" by (rule srcX_eq[OF x])
  have sy: "srcY y = (int y * 96) div 64" by (rule srcY_eq[OF y])
  have bx: "0 \<le> srcX x" "srcX x \<le> 95" unfolding sx using x by linarith+
  have "by": "0 \<le> srcY y" "srcY y \<le> 95" unfolding sy using y by linarith+
  have idx: "nat (srcY y * 96 + srcX x) < 96 * 96" using bx "by" by linarith
  have c1: "srcX 127 = 95" using srcX_eq[of 127] by simp
  have c2: "srcY 63 \<le> 95" using srcY_eq[of 63] by simp
  show ?thesis using sx sy bx "by" idx c1 c2 by (simp only: simp_thms)
qed

theorem source_index_in_range_witness:
  "srcX 127 = 95 \<and> srcY 63 = 94 \<and> nat (srcY 63 * 96 + srcX 127) = 9119"
proof -
  have "127 < BMP_W" "63 < BMP_H" by (simp_all add: BMP_W_def BMP_H_def)
  from source_index_in_range[OF this] show ?thesis by simp
qed

text \<open>
  C1. For every 96x96 grayscale frame and every destination pixel \<open>(x, y)\<close> with
  \<open>x < 128\<close> and \<open>y < 64\<close>, the bit of the bitmap that belongs to the pixel (bit
  \<open>7 - x mod 8\<close> of byte \<open>(y * 128 + x) div 8\<close>) is 1 exactly when the sampled source
  intensity is strictly greater than the threshold; an intensity equal to the threshold
  gives bit 0.
\<close>

theorem threshold_is_strict:
  assumes "buf fb = Some gray" and "length gray = 96 * 96" and "x < BMP_W" and "y < BMP_H"
  shows "(bit (convertFrameToBitmap (Some fb) dst ! ((y * BMP_W + x) div 8)) (7 - x mod 8)
            \<longleftrightarrow> BRIGHTNESS_THRESHOLD < gray ! nat (srcY y * 96 + srcX x))
         \<and> (gray ! nat (srcY y * 96 + srcX x) = BRIGHTNESS_THRESHOLD
            \<longrightarrow> \<not> bit (convertFrameToBitmap (Some fb) dst ! ((y * BMP_W + x) div 8))
                       (7 - x mod 8))"
proof -
  have x: "x < 128" and y: "y < 64" using assms(3,4) by (simp_all add: BMP_W_def BMP_H_def)
  have run: "convertFrameToBitmap (Some fb) dst =
             fold (convert_row gray BRIGHTNESS_THRESHOLD) [0..<BMP_H]
               (replicate (BMP_W * BMP_H div 8) 0)"
    using assms(1,2) by (simp add: convertFrameToBitmap_def len_def)
  have "bit (convertFrameToBitmap (Some fb) dst ! ((y * 128 + x) div 8)) (7 - x mod 8)
          \<longleftrightarrow> BRIGHTNESS_THRESHOLD < gray ! nat (srcY y * 96 + srcX x)"
    unfolding run by (rule converted_bit[OF x y])
  then show ?thesis by (simp add: BMP_W_def)
qed

theorem threshold_is_strict_witness:
  "bit (convertFrameToBitmap
          (Some \<lparr>buf = Some (replicate 9216 200), width = 96, height = 96,
                 format = PIXFORMAT_GRAYSCALE\<rparr>) [] ! 48) 2
   \<and> \<not> bit (convertFrameToBitmap
          (Some \<lparr>buf = Some (replicate 9216 64), width = 96, height = 96,
                 format = PIXFORMAT_GRAYSCALE\<rparr>) [] ! 48) 2"
proof -
  let ?fb = "\<lambda>v. \<lparr>buf = Some (replicate 9216 v), width = 96, height = 96,
                     format = PIXFORMAT_GRAYSCALE\<rparr>"
  have h: "length (replicate 9216 (v::u8)) = 96 * 96" "5 < BMP_W" "3 < BMP_H" for v
    by (simp_all add: BMP_W_def BMP_H_def)
  have i: "nat (srcY 3 * 96 + srcX 5) = 387"
    using srcX_eq[of 5] srcY_eq[of 3] by simp
  have b: "\<And>v. buf (?fb v) = Some (replicate 9216 v)" by simp
  from threshold_is_strict[OF b h, of 200 "[]"] threshold_is_strict[OF b h, of 64 "[]"]
  show ?thesis unfolding i by (simp add: BMP_W_def BRIGHTNESS_THRESHOLD_def)
qed

text \<open>
  C9. On every call with a 96x96 grayscale frame (or any frame that carries at least
  96 * 96 bytes), \<^verbatim>\<open>convertFrameToBitmap\<close> zeroes and rewrites the whole destination
  buffer: for any two initial contents of the destination the final bytes are the
  same, and the result has the fixed size of the bitmap.
\<close>

theorem convert_fully_overwrites:
  assumes "buf fb = Some gray" and "96 * 96 \<le> length gray"
  shows "convertFrameToBitmap (Some fb) dst1 = convertFrameToBitmap (Some fb) dst2
         \<and> length (convertFrameToBitmap (Some fb) dst1) = BMP_W * BMP_H div 8"
proof -
  have run: "convertFrameToBitmap (Some fb) dst =
             fold (convert_row gray BRIGHTNESS_THRESHOLD) [0..<BMP_H]
               (replicate (BMP_W * BMP_H div 8) 0)" for dst
    using assms by (simp add: convertFrameToBitmap_def len_def)
  have a: "\<forall>y\<in>set [0..<BMP_H]. y < 64" by (simp add: BMP_H_def)
  have b: "length (replicate (BMP_W * BMP_H div 8) (0::u8)) = 1024"
    by (simp add: BMP_W_def BMP_H_def)
  have c: "(0::nat) < 1024" by simp
  have "length (fold (convert_row gray BRIGHTNESS_THRESHOLD) [0..<BMP_H]
            (replicate (BMP_W * BMP_H div 8) 0)) = 1024"
    by (rule conjunct1[OF fold_convert_row[OF a b c]])
  then have "length (convertFrameToBitmap (Some fb) dst1) = BMP_W * BMP_H div 8"
    unfolding run by (simp add: BMP_W_def BMP_H_def)
  moreover have "convertFrameToBitmap (Some fb) dst1 = convertFrameToBitmap (Some fb) dst2"
    by (simp only: run)
  ultimately show ?thesis by simp
qed

theorem convert_fully_overwrites_witness:
  "convertFrameToBitmap
     (Some \<lparr>buf = Some (replicate 9216 200), width = 96, height = 96,
            format = PIXFORMAT_GRAYSCALE\<rparr>) (replicate 1024 255)
   = convertFrameToBitmap
     (Some \<lparr>buf = Some (replicate 9216 200), width = 96, height = 96,
            format = PIXFORMAT_GRAYSCALE\<rparr>) (replicate 1024 0)"
proof -
  let ?fb = "\<lparr>buf = Some (replicate 9216 200), width = 96, height = 96,
            format = PIXFORMAT_GRAYSCALE\<rparr>"
  have h: "buf ?fb = Some (replicate 9216 200)" "96 * 96 \<le> length (replicate 9216 (200::u8))"
    by simp_all
  from convert_fully_overwrites[OF h, of "replicate 1024 255" "replicate 1024 0"]
  show ?thesis by (rule conjunct1)
qed

section \<open>Per-frame processing and the error counter\<close>

lemma emit_fields [simp]:
  "trace (emit es s) = trace s @ es"
  "serial (emit es s) = serial s"
  "frameCount (emit es s) = frameCount s"
  "errorCount (emit es s) = errorCount s"
  "cameraInitialized (emit es s) = cameraInitialized s"
  "bitmapBuffer (emit es s) = bitmapBuffer s"
  by (simp_all add: emit_def)

lemma println_fields [simp]:
  "trace (println ds s) = trace s"
  "serial (println ds s) = serial s @ ds"
  "frameCount (println ds s) = frameCount s"
  "errorCount (println ds s) = errorCount s"
  "cameraInitialized (println ds s) = cameraInitialized s"
  "bitmapBuffer (println ds s) = bitmapBuffer s"
  by (simp_all add: println_def)

lemma processFrame_failed:
  assumes "cameraInitialized s" and "frame_failed fbp"
  shows "processFrame fbp s =
           (False, (emit (FbGet # (if fbp = None then [] else [FbReturn])) s)
                     \<lparr>errorCount := errorCount s + 1\<rparr>)"
  using assms by (auto simp: processFrame_def frame_failed_def split: option.splits)

lemma processFrame_ok:
  assumes "cameraInitialized s" and "\<not> frame_failed fbp"
  shows "processFrame fbp s =
           (True, (emit [FbGet, FbReturn, DisplayClear,
                         DrawBitmap 0 0 (convertFrameToBitmap fbp (bitmapBuffer s)) BMP_W BMP_H 1,
                         DisplayFlush] s)
                    \<lparr>bitmapBuffer := convertFrameToBitmap fbp (bitmapBuffer s),
                     frameCount := frameCount s + 1\<rparr>)"
  using assms by (auto simp: processFrame_def frame_failed_def Let_def split: option.splits)

lemma processFrame_serial [simp]: "serial (snd (processFrame fbp s)) = serial s"
  by (auto simp: processFrame_def Let_def split: option.splits)

text \<open>
  C3, as the code has it. For every call of \<^verbatim>\<open>processFrame\<close> with the camera
  initialised, the call succeeds exactly when the frame did not fail; a failed frame
  adds 1 to \<open>errorCount\<close> and leaves \<open>frameCount\<close> alone, a good frame adds 1 to
  \<open>frameCount\<close> and leaves \<open>errorCount\<close> alone. Both counters are 32-bit and wrap.
\<close>

theorem processFrame_counters:
  assumes "cameraInitialized s"
  shows "fst (processFrame fbp s) = (\<not> frame_failed fbp)
         \<and> (frame_failed fbp \<longrightarrow>
              errorCount (snd (processFrame fbp s)) = errorCount s + 1
              \<and> frameCount (snd (processFrame fbp s)) = frameCount s)
         \<and> (\<not> frame_failed fbp \<longrightarrow>
              frameCount (snd (processFrame fbp s)) = frameCount s + 1
              \<and> errorCount (snd (processFrame fbp s)) = errorCount s)"
proof (cases "frame_failed fbp")
  case True
  then show ?thesis by (simp add: processFrame_failed[OF assms True])
next
  case False
  then show ?thesis by (simp add: processFrame_ok[OF assms False])
qed

theorem processFrame_counters_witness:
  "frameCount (snd (processFrame None (initial_state\<lparr>cameraInitialized := True\<rparr>))) = 0
   \<and> errorCount (snd (processFrame None (initial_state\<lparr>cameraInitialized := True\<rparr>))) = 1
   \<and> frameCount (snd (processFrame
        (Some \<lparr>buf = Some (replicate 9216 200), width = 96, height = 96,
               format = PIXFORMAT_GRAYSCALE\<rparr>)
        (initial_state\<lparr>cameraInitialized := True\<rparr>))) = 1"
proof -
  let ?s = "initial_state\<lparr>cameraInitialized := True\<rparr>"
  let ?fb = "\<lparr>buf = Some (replicate 9216 200), width = 96, height = 96,
               format = PIXFORMAT_GRAYSCALE\<rparr>"
  have i: "cameraInitialized ?s" by simp
  have f: "frame_failed None" "\<not> frame_failed (Some ?fb)" by (simp_all add: frame_failed_def)
  from processFrame_counters[OF i, of None] processFrame_counters[OF i, of "Some ?fb"] f
  show ?thesis by (simp add: initial_state_def)
qed

text \<open>
  C3 as stated fails: when no frame is acquired, \<open>frameCount\<close> is not incremented.
\<close>

theorem frameCount_not_incremented_counterexample:
  "cameraInitialized (initial_state\<lparr>cameraInitialized := True\<rparr>)
   \<and> frameCount (snd (processFrame None (initial_state\<lparr>cameraInitialized := True\<rparr>)))
       \<noteq> frameCount (initial_state\<lparr>cameraInitialized := True\<rparr>) + 1"
  by (simp add: processFrame_def initial_state_def)

text \<open>
  C10. When no frame is acquired, or the acquired frame is not 96x96 grayscale,
  \<^verbatim>\<open>processFrame\<close> returns false, counts one error, calls the camera driver only to get
  the frame and (if there was one) to return it, and leaves the bitmap buffer as it
  was; the whole run of \<^verbatim>\<open>loop\<close> then contains no call of the display driver.
\<close>

theorem failed_frame_skips_rendering:
  assumes "cameraInitialized s" and "frame_failed fbp"
  shows "fst (processFrame fbp s) = False
         \<and> errorCount (snd (processFrame fbp s)) = errorCount s + 1
         \<and> new_events s (snd (processFrame fbp s))
             = FbGet # (if fbp = None then [] else [FbReturn])
         \<and> bitmapBuffer (snd (processFrame fbp s)) = bitmapBuffer s
         \<and> bitmapBuffer (loop fbp t0 t1 s) = bitmapBuffer s
         \<and> list_all (\<lambda>e. \<not> is_display_event e) (new_events s (loop fbp t0 t1 s))"
  using assms
  by (simp add: processFrame_failed new_events_def loop_def Let_def)

theorem failed_frame_skips_rendering_witness:
  "new_events (initial_state\<lparr>cameraInitialized := True\<rparr>)
     (snd (processFrame
        (Some \<lparr>buf = Some (replicate 9216 200), width = 96, height = 64,
               format = PIXFORMAT_GRAYSCALE\<rparr>)
        (initial_state\<lparr>cameraInitialized := True\<rparr>))) = [FbGet, FbReturn]
   \<and> new_events (initial_state\<lparr>cameraInitialized := True\<rparr>)
     (snd (processFrame None (initial_state\<lparr>cameraInitialized := True\<rparr>))) = [FbGet]"
proof -
  let ?s = "initial_state\<lparr>cameraInitialized := True\<rparr>"
  let ?fb = "\<lparr>buf = Some (replicate 9216 200), width = 96, height = 64,
               format = PIXFORMAT_GRAYSCALE\<rparr>"
  have i: "cameraInitialized ?s" by simp
  have f: "frame_failed None" "frame_failed (Some ?fb)" by (simp_all add: frame_failed_def)
  from failed_frame_skips_rendering[OF i f(1)] failed_frame_skips_rendering[OF i f(2)]
  show ?thesis by simp
qed

text \<open>
  C5. At the end of a run of \<^verbatim>\<open>loop\<close>, \<open>errorCount\<close> is set to 0 exactly when it
  exceeds 1000 after the frame was processed (and the reset is then logged); it is left
  alone when it is at most 1000; \<open>frameCount\<close> is not changed by the reset.
\<close>

theorem error_counter_reset:
  "(1000 < errorCount (snd (processFrame fbp s)) \<longrightarrow> errorCount (loop fbp t0 t1 s) = 0)
   \<and> (errorCount (snd (processFrame fbp s)) \<le> 1000 \<longrightarrow>
        errorCount (loop fbp t0 t1 s) = errorCount (snd (processFrame fbp s)))
   \<and> (Line ''Resetting error counter...'' \<in> set (new_lines s (loop fbp t0 t1 s))
        \<longleftrightarrow> 1000 < errorCount (snd (processFrame fbp s)))
   \<and> frameCount (loop fbp t0 t1 s) = frameCount (snd (processFrame fbp s))"
  by (auto simp: loop_def Let_def new_lines_def)

theorem error_counter_reset_witness:
  "errorCount (loop None 0 10 (initial_state\<lparr>cameraInitialized := True, errorCount := 1000\<rparr>)) = 0
   \<and> errorCount (loop None 0 10 (initial_state\<lparr>cameraInitialized := True, errorCount := 999\<rparr>)) = 1000"
proof -
  let ?s = "\<lambda>e. initial_state\<lparr>cameraInitialized := True, errorCount := e\<rparr>"
  have "errorCount (snd (processFrame None (?s e))) = e + 1" for e
    by (simp add: processFrame_def)
  with error_counter_reset[of None "?s 1000" 0 10] error_counter_reset[of None "?s 999" 0 10]
  show ?thesis by simp
qed

section \<open>The retry loop\<close>

declare init_attempts.simps [simp del]

lemma init_attempts_success:
  assumes "a \<le> k" "k \<le> MAX_RETRIES" "cam k = ESP_OK" "\<forall>i. a \<le> i \<and> i < k \<longrightarrow> cam i \<noteq> ESP_OK"
  shows "fst (init_attempts cam sens a s) = True
         \<and> cameraInitialized (snd (init_attempts cam sens a s))
         \<and> trace (snd (init_attempts cam sens a s))
             = trace s @ concat (map (\<lambda>i. [CameraInit, Delay (i * 1000), CameraDeinit, Delay 500]) [a..<k])
               @ CameraInit # (if sens then [SensorTune] else [])"
  using assms
proof (induction "k - a" arbitrary: a s)
  case 0
  then have "a = k" by simp
  with 0 show ?case by (subst (1 2 3) init_attempts.simps) simp
next
  case (Suc n)
  then have lt: "a < k" by simp
  then have fail: "cam a \<noteq> ESP_OK" and a: "a \<le> MAX_RETRIES" "a < MAX_RETRIES"
    using Suc.prems by auto
  let ?s = "emit [Delay (a * 1000), CameraDeinit, Delay 500]
              (println [InitAttemptFailed a (cam a), Line (classify (cam a))] (emit [CameraInit] s))"
  have step: "init_attempts cam sens a s = init_attempts cam sens (a + 1) ?s"
    using fail a by (subst init_attempts.simps) simp
  have "n = k - (a + 1)" using Suc.hyps(2) by simp
  moreover have "a + 1 \<le> k" using lt by simp
  moreover have "\<forall>i. a + 1 \<le> i \<and> i < k \<longrightarrow> cam i \<noteq> ESP_OK" using Suc.prems(4) by simp
  ultimately have IH: "fst (init_attempts cam sens (a + 1) ?s) = True
         \<and> cameraInitialized (snd (init_attempts cam sens (a + 1) ?s))
         \<and> trace (snd (init_attempts cam sens (a + 1) ?s))
             = trace ?s @ concat (map (\<lambda>i. [CameraInit, Delay (i * 1000), CameraDeinit, Delay 500]) [a + 1..<k])
               @ CameraInit # (if sens then [SensorTune] else [])"
    using Suc.hyps(1)[of "a + 1" ?s] Suc.prems(2,3) by blast
  have "[a..<k] = a # [a + 1..<k]" using lt by (simp add: upt_conv_Cons)
  then show ?case unfolding step using IH by simp
qed

lemma init_attempts_all_fail:
  assumes "a \<le> MAX_RETRIES + 1" "\<forall>i. a \<le> i \<and> i \<le> MAX_RETRIES \<longrightarrow> cam i \<noteq> ESP_OK"
  shows "fst (init_attempts cam sens a s) = False
         \<and> cameraInitialized (snd (init_attempts cam sens a s)) = cameraInitialized s
         \<and> trace (snd (init_attempts cam sens a s))
             = trace s @ concat (map (\<lambda>i. CameraInit # (if i < MAX_RETRIES
                                   then [Delay (i * 1000), CameraDeinit, Delay 500] else []))
                                  [a..<MAX_RETRIES + 1])"
  using assms
proof (induction "MAX_RETRIES + 1 - a" arbitrary: a s)
  case 0
  then have "a = MAX_RETRIES + 1" by simp
  then show ?case by (subst (1 2 3) init_attempts.simps) simp
next
  case (Suc n)
  then have a: "a \<le> MAX_RETRIES" by simp
  then have fail: "cam a \<noteq> ESP_OK" using Suc.prems by auto
  let ?s = "(if a < MAX_RETRIES then emit [Delay (a * 1000), CameraDeinit, Delay 500] else id)
              (println [InitAttemptFailed a (cam a), Line (classify (cam a))] (emit [CameraInit] s))"
  have step: "init_attempts cam sens a s = init_attempts cam sens (a + 1) ?s"
    using fail a by (subst init_attempts.simps) simp
  have "n = MAX_RETRIES + 1 - (a + 1)" using Suc.hyps(2) by simp
  moreover have "a + 1 \<le> MAX_RETRIES + 1" using a by simp
  moreover have "\<forall>i. a + 1 \<le> i \<and> i \<le> MAX_RETRIES \<longrightarrow> cam i \<noteq> ESP_OK" using Suc.prems(2) by simp
  ultimately have IH: "fst (init_attempts cam sens (a + 1) ?s) = False
         \<and> cameraInitialized (snd (init_attempts cam sens (a + 1) ?s)) = cameraInitialized ?s
         \<and> trace (snd (init_attempts cam sens (a + 1) ?s))
             = trace ?s @ concat (map (\<lambda>i. CameraInit # (if i < MAX_RETRIES
                                   then [Delay (i * 1000), CameraDeinit, Delay 500] else []))
                                  [a + 1..<MAX_RETRIES + 1])"
    using Suc.hyps(1)[of "a + 1" ?s] by blast
  have "[a..<MAX_RETRIES + 1] = a # [a + 1..<MAX_RETRIES + 1]"
    using a by (simp add: upt_conv_Cons)
  then show ?case unfolding step using IH by simp
qed

lemma init_attempts_events:
  "\<exists>es. trace (snd (init_attempts cam sens a s)) = trace s @ es
        \<and> list_all is_retry_event es
        \<and> (a \<le> MAX_RETRIES \<longrightarrow> es \<noteq> [] \<and> hd es = CameraInit)
        \<and> frameCount (snd (init_attempts cam sens a s)) = frameCount s
        \<and> errorCount (snd (init_attempts cam sens a s)) = errorCount s
        \<and> bitmapBuffer (snd (init_attempts cam sens a s)) = bitmapBuffer s"
proof (induction cam sens a s rule: init_attempts.induct)
  case (1 cam sens attempt s)
  show ?case
  proof (cases "attempt \<le> MAX_RETRIES")
    case False
    then show ?thesis by (subst (1 2 3 4) init_attempts.simps) simp
  next
    case le: True
    show ?thesis
    proof (cases "cam attempt = ESP_OK")
      case True
      then show ?thesis using le by (subst (1 2 3 4) init_attempts.simps) simp
    next
      case False
      let ?s = "(if attempt < MAX_RETRIES then emit [Delay (attempt * 1000), CameraDeinit, Delay 500] else id)
              (println [InitAttemptFailed attempt (cam attempt), Line (classify (cam attempt))] (emit [CameraInit] s))"
      have step: "init_attempts cam sens attempt s = init_attempts cam sens (attempt + 1) ?s"
        using False le by (subst init_attempts.simps) simp
      from "1.IH"[OF le False] obtain es where
        es: "trace (snd (init_attempts cam sens (attempt + 1) ?s)) = trace ?s @ es"
            "list_all is_retry_event es"
            "frameCount (snd (init_attempts cam sens (attempt + 1) ?s)) = frameCount ?s"
            "errorCount (snd (init_attempts cam sens (attempt + 1) ?s)) = errorCount ?s"
            "bitmapBuffer (snd (init_attempts cam sens (attempt + 1) ?s)) = bitmapBuffer ?s"
        by blast
      show ?thesis
      proof (cases "attempt < MAX_RETRIES")
        case True
        with es show ?thesis unfolding step
          by (intro exI[of _ "[CameraInit, Delay (attempt * 1000), CameraDeinit, Delay 500] @ es"]) simp
      next
        case False
        with es show ?thesis unfolding step
          by (intro exI[of _ "CameraInit # es"]) simp
      qed
    qed
  qed
qed

lemma retry_event_cases:
  "is_retry_event e \<Longrightarrow> e \<noteq> FbGet \<and> e \<noteq> FbReturn \<and> \<not> is_display_event e
     \<and> (\<forall>p v. e \<noteq> DigitalWrite p v) \<and> (\<forall>a. e \<noteq> DisplayBegin a)"
  by (cases e) simp_all

lemma one_le_MAX_RETRIES: "1 \<le> MAX_RETRIES"
  by (simp add: MAX_RETRIES_def)

lemma initCamera_events:
  "\<exists>es. trace (snd (initCamera hw s)) = trace s @ power_cycle @ CameraInit # es
        \<and> list_all is_retry_event es
        \<and> frameCount (snd (initCamera hw s)) = frameCount s
        \<and> errorCount (snd (initCamera hw s)) = errorCount s
        \<and> bitmapBuffer (snd (initCamera hw s)) = bitmapBuffer s"
proof -
  let ?s = "emit power_cycle s"
  obtain es where es:
    "trace (snd (init_attempts (camera_init_result hw) (sensor_available hw) 1 ?s)) = trace ?s @ es"
    "list_all is_retry_event es" "es \<noteq> []" "hd es = CameraInit"
    "frameCount (snd (init_attempts (camera_init_result hw) (sensor_available hw) 1 ?s)) = frameCount ?s"
    "errorCount (snd (init_attempts (camera_init_result hw) (sensor_available hw) 1 ?s)) = errorCount ?s"
    "bitmapBuffer (snd (init_attempts (camera_init_result hw) (sensor_available hw) 1 ?s)) = bitmapBuffer ?s"
    using init_attempts_events[of "camera_init_result hw" "sensor_available hw" 1 ?s]
      one_le_MAX_RETRIES by blast
  from es(3,4) obtain es' where es': "es = CameraInit # es'" by (cases es) auto
  have i: "initCamera hw s = init_attempts (camera_init_result hw) (sensor_available hw) 1 ?s"
    by (simp add: initCamera_def power_cycle_def)
  show ?thesis unfolding i using es es'
    by (intro exI[of _ es']) simp
qed

lemma count_retry_rounds:
  assumes "\<forall>i. count_list (f i) CameraInit = 1"
  shows "count_list (concat (map f xs)) CameraInit = length xs"
  using assms by (induction xs) simp_all

lemma count_list_append [simp]:
  "count_list (xs @ ys) a = count_list xs a + count_list ys a"
  by (induction xs) simp_all

lemma loop_trace: "\<exists>es. trace (loop fbp t0 t1 s) = trace s @ es"
  by (auto simp: loop_def Let_def processFrame_def split: option.splits)

lemma run_phase: "fst (run hw n) = fst (setup_sketch hw initial_state)"
  by (induction n) (auto split: prod.splits phase.splits)

lemma run_trace_grows: "\<exists>es. trace (snd (run hw n)) = trace (snd (run hw 0)) @ es"
proof (induction n)
  case 0
  show ?case by simp
next
  case (Suc n)
  then obtain es where es: "trace (snd (run hw n)) = trace (snd (run hw 0)) @ es" by blast
  obtain p s where r: "run hw n = (p, s)" by (cases "run hw n")
  obtain es' where "trace (loop (fb_get hw n) (millis_start hw n) (millis_end hw n) s) = trace s @ es'"
    using loop_trace by blast
  with es r show ?case
    by (cases p) (auto simp: oled_halt_body_def camera_halt_body_def displayStatus_def)
qed

lemma setup_phase:
  "fst (setup_sketch hw s) =
     (if \<not> display_begin_ok hw then OledHalt
      else if fst (initCamera hw
                (displayStatus ''Initializing camera...'' False
                   (testOLED (emit [DisplayClear, DisplayFlush]
                      (emit [DisplayBegin OLED_ADDR]
                        (println (probe_report (probe_ack hw))
                          (emit [Delay 3000, WireBegin 15 14, WireSetClock 400000,
                                 WireProbe OLED_ADDR] s)))))))
           then Looping else CameraHalt)"
  by (simp add: setup_sketch_def Let_def split: prod.splits)

lemma initCamera_no_frames:
  assumes "initCamera hw s = (ok, s')" and "e \<in> set (trace s')"
    and "e = FbGet \<or> e = DisplayBegin a"
  shows "e \<in> set (trace s)"
proof -
  obtain es where es: "trace (snd (initCamera hw s)) = trace s @ power_cycle @ CameraInit # es"
    "list_all is_retry_event es"
    using initCamera_events by blast
  have "e \<notin> set es" using es(2) assms(3) retry_event_cases
    by (auto simp: list_all_iff)
  with assms es(1) show ?thesis by (auto simp: power_cycle_def)
qed

lemma setup_trace_no_frames:
  "FbGet \<notin> set (trace (snd (setup_sketch hw initial_state)))"
  by (auto simp: setup_sketch_def Let_def testOLED_def displayStatus_def initial_state_def
      split: prod.splits dest!: initCamera_no_frames)

lemma run_halted_no_frames:
  assumes "fst (setup_sketch hw initial_state) \<noteq> Looping"
  shows "FbGet \<notin> set (trace (snd (run hw n)))"
proof (induction n)
  case 0
  show ?case using setup_trace_no_frames by simp
next
  case (Suc n)
  obtain p s where r: "run hw n = (p, s)" by (cases "run hw n")
  have "p \<noteq> Looping" using assms run_phase[of hw n] r by simp
  with Suc r show ?case
    by (cases p) (auto simp: oled_halt_body_def camera_halt_body_def displayStatus_def)
qed

lemma run_oled_halt:
  assumes "\<not> display_begin_ok hw"
  shows "fst (run hw n) = OledHalt
         \<and> trace (snd (run hw n))
             = [Delay 3000, WireBegin 15 14, WireSetClock 400000, WireProbe OLED_ADDR,
                DisplayBegin OLED_ADDR] @ replicate n (Delay 5000)
         \<and> \<not> cameraInitialized (snd (run hw n))"
proof (induction n)
  case 0
  show ?case using assms by (simp add: setup_sketch_def Let_def initial_state_def)
next
  case (Suc n)
  obtain p s where r: "run hw n = (p, s)" by (cases "run hw n")
  with Suc show ?case
    by (simp add: oled_halt_body_def replicate_append_same)
qed

lemma setup_attempts_camera:
  assumes "display_begin_ok hw"
  shows "CameraInit \<in> set (trace (snd (setup_sketch hw initial_state)))"
proof -
  let ?s4 = "displayStatus ''Initializing camera...'' False
                   (testOLED (emit [DisplayClear, DisplayFlush]
                      (emit [DisplayBegin OLED_ADDR]
                        (println (probe_report (probe_ack hw))
                          (emit [Delay 3000, WireBegin 15 14, WireSetClock 400000,
                                 WireProbe OLED_ADDR] initial_state)))))"
  obtain es where es: "trace (snd (initCamera hw ?s4)) = trace ?s4 @ power_cycle @ CameraInit # es"
    using initCamera_events by blast
  obtain ok s5 where i: "initCamera hw ?s4 = (ok, s5)" by (cases "initCamera hw ?s4")
  with es have "CameraInit \<in> set (trace s5)" by simp
  then show ?thesis using assms i
    by (simp add: setup_sketch_def Let_def displayStatus_def)
qed

section \<open>The serial log influences nothing else\<close>

lemma silent_fields [simp]:
  "trace (silent s) = trace s"
  "serial (silent s) = []"
  "frameCount (silent s) = frameCount s"
  "errorCount (silent s) = errorCount s"
  "cameraInitialized (silent s) = cameraInitialized s"
  "bitmapBuffer (silent s) = bitmapBuffer s"
  by (simp_all add: silent_def)

lemma silent_idem [simp]: "silent (silent s) = silent s"
  by (simp add: silent_def)

lemma silent_emit [simp]: "silent (emit es s) = emit es (silent s)"
  by (simp add: silent_def emit_def)

lemma silent_println [simp]: "silent (println ds s) = silent s"
  by (simp add: silent_def println_def)

lemma silent_update [simp]:
  "silent (s\<lparr>errorCount := e\<rparr>) = (silent s)\<lparr>errorCount := e\<rparr>"
  "silent (s\<lparr>frameCount := f\<rparr>) = (silent s)\<lparr>frameCount := f\<rparr>"
  "silent (s\<lparr>bitmapBuffer := b\<rparr>) = (silent s)\<lparr>bitmapBuffer := b\<rparr>"
  "silent (s\<lparr>cameraInitialized := c\<rparr>) = (silent s)\<lparr>cameraInitialized := c\<rparr>"
  by (simp_all add: silent_def)

lemma silent_displayStatus [simp]:
  "silent (displayStatus m b s) = displayStatus m b (silent s)"
  by (simp add: displayStatus_def)

lemma silent_testOLED [simp]: "silent (testOLED s) = testOLED (silent s)"
  by (simp add: testOLED_def)

lemma silent_processFrame:
  "fst (processFrame fbp (silent s)) = fst (processFrame fbp s)"
  "snd (processFrame fbp (silent s)) = silent (snd (processFrame fbp s))"
  by (auto simp: processFrame_def Let_def split: option.splits)

lemma silent_loop: "silent (loop fbp t0 t1 (silent s)) = silent (loop fbp t0 t1 s)"
  by (simp add: loop_def Let_def silent_processFrame)

lemma silent_init_attempts:
  assumes "silent s = silent t"
  shows "fst (init_attempts cam sens a s) = fst (init_attempts cam sens a t)
   \<and> silent (snd (init_attempts cam sens a s)) = silent (snd (init_attempts cam sens a t))"
  using assms
proof (induction "MAX_RETRIES + 1 - a" arbitrary: a s t)
  case 0
  then have "\<not> a \<le> MAX_RETRIES" by simp
  then show ?case using 0(2) by (subst (1 2 3 4) init_attempts.simps) simp
next
  case (Suc n)
  then have a: "a \<le> MAX_RETRIES" by simp
  show ?case
  proof (cases "cam a = ESP_OK")
    case True
    then show ?thesis using a Suc.prems by (subst (1 2 3 4) init_attempts.simps) simp
  next
    case False
    let ?next = "\<lambda>s. (if a < MAX_RETRIES
                     then emit [Delay (a * 1000), CameraDeinit, Delay 500]
                     else id)
                      (println [InitAttemptFailed a (cam a), Line (classify (cam a))]
                         (emit [CameraInit] s))"
    have step: "init_attempts cam sens a u = init_attempts cam sens (a + 1) (?next u)" for u
      using False a by (subst init_attempts.simps) simp
    have rel: "silent (?next s) = silent (?next t)" using Suc.prems by simp
    have "n = MAX_RETRIES + 1 - (a + 1)" using Suc.hyps(2) by simp
    from Suc.hyps(1)[OF this rel] show ?thesis unfolding step .
  qed
qed

lemma silent_initCamera:
  assumes "silent s = silent t"
  shows "fst (initCamera hw s) = fst (initCamera hw t)"
    and "silent (snd (initCamera hw s)) = silent (snd (initCamera hw t))"
proof -
  let ?pc = "emit [PinModeOutput PWDN_GPIO_NUM, DigitalWrite PWDN_GPIO_NUM True, Delay 100,
              DigitalWrite PWDN_GPIO_NUM False, Delay 100]"
  have "silent (?pc s) = silent (?pc t)" using assms by simp
  from silent_init_attempts[OF this, of "camera_init_result hw" "sensor_available hw" 1]
  show "fst (initCamera hw s) = fst (initCamera hw t)"
    and "silent (snd (initCamera hw s)) = silent (snd (initCamera hw t))"
    by (simp_all add: initCamera_def)
qed

lemma initCamera_probe [simp]:
  "initCamera (hw\<lparr>probe_ack := a\<rparr>) s = initCamera hw s"
  by (simp add: initCamera_def)

lemma silent_setup:
  assumes "silent s = silent t"
  shows "fst (setup_sketch (hw\<lparr>probe_ack := a\<rparr>) s) = fst (setup_sketch (hw\<lparr>probe_ack := b\<rparr>) t)
   \<and> silent (snd (setup_sketch (hw\<lparr>probe_ack := a\<rparr>) s))
       = silent (snd (setup_sketch (hw\<lparr>probe_ack := b\<rparr>) t))"
proof (cases "display_begin_ok hw")
  case False
  then show ?thesis using assms by (simp add: setup_sketch_def Let_def)
next
  case True
  let ?pre = "\<lambda>c u. displayStatus ''Initializing camera...'' False
                       (testOLED (emit [DisplayClear, DisplayFlush]
                          (emit [DisplayBegin OLED_ADDR]
                             (println (probe_report c)
                               (emit [Delay 3000, WireBegin 15 14, WireSetClock 400000,
                                      WireProbe OLED_ADDR] u)))))"
  have rel: "silent (?pre a s) = silent (?pre b t)" using assms by simp
  obtain ok s5 where A: "initCamera hw (?pre a s) = (ok, s5)" by (cases "initCamera hw (?pre a s)")
  obtain ok' t5 where B: "initCamera hw (?pre b t) = (ok', t5)" by (cases "initCamera hw (?pre b t)")
  from silent_initCamera[OF rel, of hw] A B have "ok = ok'" "silent s5 = silent t5" by simp_all
  then show ?thesis using True A B by (simp add: setup_sketch_def Let_def)
qed

lemma silent_loop_rel:
  assumes "silent s = silent t"
  shows "silent (loop fbp t0 t1 s) = silent (loop fbp t0 t1 t)"
  using silent_loop[of fbp t0 t1 s] silent_loop[of fbp t0 t1 t] assms by simp

lemma run_probe_silent:
  "fst (run (hw\<lparr>probe_ack := a\<rparr>) n) = fst (run (hw\<lparr>probe_ack := b\<rparr>) n)
   \<and> silent (snd (run (hw\<lparr>probe_ack := a\<rparr>) n)) = silent (snd (run (hw\<lparr>probe_ack := b\<rparr>) n))"
proof (induction n)
  case 0
  show ?case using silent_setup[where s = initial_state and t = initial_state and hw = hw and a = a and b = b] by simp
next
  case (Suc n)
  obtain p s where r: "run (hw\<lparr>probe_ack := a\<rparr>) n = (p, s)" by (cases "run (hw\<lparr>probe_ack := a\<rparr>) n")
  obtain q t where r': "run (hw\<lparr>probe_ack := b\<rparr>) n = (q, t)" by (cases "run (hw\<lparr>probe_ack := b\<rparr>) n")
  from Suc r r' have pq: "p = q" and st: "silent s = silent t" by simp_all
  show ?case
    using pq st silent_loop_rel[OF st] r r'
    by (cases p) (simp_all add: oled_halt_body_def camera_halt_body_def)
qed

section \<open>Claims about start-up\<close>

lemma count_list_replicate_other:
  "x \<noteq> y \<Longrightarrow> count_list (replicate n x) y = 0"
  by (induction n) simp_all

lemma count_list_retry_events:
  "list_all is_retry_event es \<Longrightarrow> count_list es (DigitalWrite p v) = 0"
  by (induction es) (auto dest: retry_event_cases)

lemma initCamera_outcomes:
  "((\<forall>i. 1 \<le> i \<and> i \<le> MAX_RETRIES \<longrightarrow> camera_init_result hw i \<noteq> ESP_OK) \<longrightarrow>
       fst (initCamera hw s) = False
       \<and> cameraInitialized (snd (initCamera hw s)) = cameraInitialized s
       \<and> count_list (new_events s (snd (initCamera hw s))) CameraInit = MAX_RETRIES
       \<and> new_events s (snd (initCamera hw s))
           = [PinModeOutput PWDN_GPIO_NUM, DigitalWrite PWDN_GPIO_NUM True, Delay 100,
              DigitalWrite PWDN_GPIO_NUM False, Delay 100]
             @ concat (map (\<lambda>i. CameraInit # (if i < MAX_RETRIES
                                   then [Delay (i * 1000), CameraDeinit, Delay 500] else []))
                           [1..<MAX_RETRIES + 1])
       \<and> (display_begin_ok hw \<longrightarrow>
             fst (run hw n) = CameraHalt \<and> FbGet \<notin> set (trace (snd (run hw n)))))
   \<and> (1 \<le> k \<and> k \<le> MAX_RETRIES \<and> camera_init_result hw k = ESP_OK
        \<and> (\<forall>i. 1 \<le> i \<and> i < k \<longrightarrow> camera_init_result hw i \<noteq> ESP_OK) \<longrightarrow>
       fst (initCamera hw s) = True
       \<and> cameraInitialized (snd (initCamera hw s))
       \<and> count_list (new_events s (snd (initCamera hw s))) CameraInit = k
       \<and> new_events s (snd (initCamera hw s))
           = [PinModeOutput PWDN_GPIO_NUM, DigitalWrite PWDN_GPIO_NUM True, Delay 100,
              DigitalWrite PWDN_GPIO_NUM False, Delay 100]
             @ concat (map (\<lambda>i. [CameraInit, Delay (i * 1000), CameraDeinit, Delay 500]) [1..<k])
             @ CameraInit # (if sensor_available hw then [SensorTune] else [])
       \<and> (display_begin_ok hw \<longrightarrow> fst (run hw n) = Looping))"
proof (intro conjI impI)
  let ?cam = "camera_init_result hw" and ?sens = "sensor_available hw"
  let ?pc = "[PinModeOutput PWDN_GPIO_NUM, DigitalWrite PWDN_GPIO_NUM True, Delay 100,
              DigitalWrite PWDN_GPIO_NUM False, Delay 100]"
  have i: "initCamera hw s = init_attempts ?cam ?sens 1 (emit ?pc s)" for s
    by (simp add: initCamera_def)
  {
    assume fail: "\<forall>i. 1 \<le> i \<and> i \<le> MAX_RETRIES \<longrightarrow> ?cam i \<noteq> ESP_OK"
    have le: "1 \<le> MAX_RETRIES + 1" by simp
    note F = init_attempts_all_fail[OF le fail, of ?sens]
    show "fst (initCamera hw s) = False" unfolding i using F by blast
    show "cameraInitialized (snd (initCamera hw s)) = cameraInitialized s"
      unfolding i using F[of "emit ?pc s"] by simp
    show ev: "new_events s (snd (initCamera hw s))
           = ?pc @ concat (map (\<lambda>i. CameraInit # (if i < MAX_RETRIES
                                   then [Delay (i * 1000), CameraDeinit, Delay 500] else []))
                           [1..<MAX_RETRIES + 1])"
      unfolding i new_events_def using F[of "emit ?pc s"] by simp
    show "count_list (new_events s (snd (initCamera hw s))) CameraInit = MAX_RETRIES"
      unfolding ev by (simp add: count_retry_rounds)
    assume d: "display_begin_ok hw"
    have p: "fst (setup_sketch hw initial_state) = CameraHalt"
      unfolding setup_phase i using d F by simp
    then show "fst (run hw n) = CameraHalt" by (simp add: run_phase)
    show "FbGet \<notin> set (trace (snd (run hw n)))"
      by (rule run_halted_no_frames) (simp add: p)
  }
  {
    assume ok: "1 \<le> k \<and> k \<le> MAX_RETRIES \<and> ?cam k = ESP_OK
        \<and> (\<forall>i. 1 \<le> i \<and> i < k \<longrightarrow> ?cam i \<noteq> ESP_OK)"
    then have h: "1 \<le> k" "k \<le> MAX_RETRIES" "?cam k = ESP_OK"
      "\<forall>i. 1 \<le> i \<and> i < k \<longrightarrow> ?cam i \<noteq> ESP_OK" by auto
    note S = init_attempts_success[OF h, of ?sens]
    show "fst (initCamera hw s) = True" unfolding i using S by blast
    show "cameraInitialized (snd (initCamera hw s))" unfolding i using S by blast
    show ev: "new_events s (snd (initCamera hw s))
           = ?pc @ concat (map (\<lambda>i. [CameraInit, Delay (i * 1000), CameraDeinit, Delay 500]) [1..<k])
             @ CameraInit # (if sensor_available hw then [SensorTune] else [])"
      unfolding i new_events_def using S[of "emit ?pc s"] by simp
    show "count_list (new_events s (snd (initCamera hw s))) CameraInit = k"
      unfolding ev using h(1) by (simp add: count_retry_rounds)
    assume d: "display_begin_ok hw"
    have "fst (setup_sketch hw initial_state) = Looping"
      unfolding setup_phase i using d S by simp
    then show "fst (run hw n) = Looping" by (simp add: run_phase)
  }
qed

lemma initCamera_attempt_count:
  "count_list (new_events s (snd (initCamera hw s))) CameraInit \<le> MAX_RETRIES"
proof (cases "\<exists>k. 1 \<le> k \<and> k \<le> MAX_RETRIES \<and> camera_init_result hw k = ESP_OK")
  case True
  then obtain k where k: "1 \<le> k \<and> k \<le> MAX_RETRIES \<and> camera_init_result hw k = ESP_OK"
    and least: "\<forall>m<k. \<not> (1 \<le> m \<and> m \<le> MAX_RETRIES \<and> camera_init_result hw m = ESP_OK)"
    using exists_least_iff[of "\<lambda>k. 1 \<le> k \<and> k \<le> MAX_RETRIES \<and> camera_init_result hw k = ESP_OK"]
    by blast
  have "\<forall>i. 1 \<le> i \<and> i < k \<longrightarrow> camera_init_result hw i \<noteq> ESP_OK"
    using least k by auto
  with k have "count_list (new_events s (snd (initCamera hw s))) CameraInit = k"
    using initCamera_outcomes[where hw = hw and s = s and k = k] by blast
  with k show ?thesis by simp
next
  case False
  then have "\<forall>i. 1 \<le> i \<and> i \<le> MAX_RETRIES \<longrightarrow> camera_init_result hw i \<noteq> ESP_OK" by blast
  then have "count_list (new_events s (snd (initCamera hw s))) CameraInit = MAX_RETRIES"
    using initCamera_outcomes[where hw = hw and s = s] by blast
  then show ?thesis by simp
qed

text \<open>
  C6. \<^verbatim>\<open>initCamera\<close> calls \<^verbatim>\<open>esp_camera_init\<close> at most \<open>MAX_RETRIES\<close> times. If every
  call fails, there are exactly \<open>MAX_RETRIES\<close> calls, the result is false, and (the
  display having started) the program stays in the camera halt loop and never asks for
  a frame. If the k-th call is the first to succeed, there are exactly k calls, the
  result is true, and the program goes on to \<^verbatim>\<open>loop\<close>. After the i-th failed call, for
  \<open>i < MAX_RETRIES\<close>, the pause before the next call is \<open>i * 1000\<close> ms (followed by
  \<^verbatim>\<open>esp_camera_deinit\<close> and 500 ms).
\<close>

theorem camera_init_bounded_retries:
  "count_list (new_events s (snd (initCamera hw s))) CameraInit \<le> MAX_RETRIES
   \<and> ((\<forall>i. 1 \<le> i \<and> i \<le> MAX_RETRIES \<longrightarrow> camera_init_result hw i \<noteq> ESP_OK) \<longrightarrow>
       fst (initCamera hw s) = False
       \<and> cameraInitialized (snd (initCamera hw s)) = cameraInitialized s
       \<and> count_list (new_events s (snd (initCamera hw s))) CameraInit = MAX_RETRIES
       \<and> new_events s (snd (initCamera hw s))
           = [PinModeOutput PWDN_GPIO_NUM, DigitalWrite PWDN_GPIO_NUM True, Delay 100,
              DigitalWrite PWDN_GPIO_NUM False, Delay 100]
             @ concat (map (\<lambda>i. CameraInit # (if i < MAX_RETRIES
                                   then [Delay (i * 1000), CameraDeinit, Delay 500] else []))
                           [1..<MAX_RETRIES + 1])
       \<and> (display_begin_ok hw \<longrightarrow>
             fst (run hw n) = CameraHalt \<and> FbGet \<notin> set (trace (snd (run hw n)))))
   \<and> (1 \<le> k \<and> k \<le> MAX_RETRIES \<and> camera_init_result hw k = ESP_OK
        \<and> (\<forall>i. 1 \<le> i \<and> i < k \<longrightarrow> camera_init_result hw i \<noteq> ESP_OK) \<longrightarrow>
       fst (initCamera hw s) = True
       \<and> cameraInitialized (snd (initCamera hw s))
       \<and> count_list (new_events s (snd (initCamera hw s))) CameraInit = k
       \<and> new_events s (snd (initCamera hw s))
           = [PinModeOutput PWDN_GPIO_NUM, DigitalWrite PWDN_GPIO_NUM True, Delay 100,
              DigitalWrite PWDN_GPIO_NUM False, Delay 100]
             @ concat (map (\<lambda>i. [CameraInit, Delay (i * 1000), CameraDeinit, Delay 500]) [1..<k])
             @ CameraInit # (if sensor_available hw then [SensorTune] else [])
       \<and> (display_begin_ok hw \<longrightarrow> fst (run hw n) = Looping))"
  using initCamera_attempt_count[of s hw] initCamera_outcomes[of hw s n k]
  by (rule conjI)

theorem camera_init_bounded_retries_witness:
  "fst (initCamera hw_camera_dead initial_state) = False
   \<and> count_list (new_events initial_state (snd (initCamera hw_camera_dead initial_state)))
        CameraInit = 5
   \<and> fst (run hw_camera_dead 3) = CameraHalt
   \<and> fst (initCamera hw_retry_once initial_state) = True
   \<and> new_events initial_state (snd (initCamera hw_retry_once initial_state))
       = [PinModeOutput 32, DigitalWrite 32 True, Delay 100, DigitalWrite 32 False, Delay 100,
          CameraInit, Delay 1000, CameraDeinit, Delay 500, CameraInit, SensorTune]
   \<and> fst (run hw_retry_once 3) = Looping"
proof -
  have a: "\<forall>i. 1 \<le> i \<and> i \<le> MAX_RETRIES \<longrightarrow> camera_init_result hw_camera_dead i \<noteq> ESP_OK"
    by (simp add: hw_camera_dead_def)
  have b: "1 \<le> (2::nat) \<and> 2 \<le> MAX_RETRIES \<and> camera_init_result hw_retry_once 2 = ESP_OK
        \<and> (\<forall>i. 1 \<le> i \<and> i < 2 \<longrightarrow> camera_init_result hw_retry_once i \<noteq> ESP_OK)"
    by (auto simp: hw_retry_once_def MAX_RETRIES_def)
  have d: "display_begin_ok hw_camera_dead" "display_begin_ok hw_retry_once"
    "sensor_available hw_retry_once"
    by (simp_all add: hw_camera_dead_def hw_retry_once_def)
  have u: "[Suc 0..<2] = [Suc 0]" by (simp add: upt_conv_Cons)
  note A = camera_init_bounded_retries[where hw = hw_camera_dead and s = initial_state and n = 3 and k = 0,
             THEN conjunct2, THEN conjunct1, THEN mp, OF a]
  note B = camera_init_bounded_retries[where hw = hw_retry_once and s = initial_state and n = 3 and k = 2,
             THEN conjunct2, THEN conjunct2, THEN mp, OF b]
  have 1: "fst (initCamera hw_camera_dead initial_state) = False"
    by (rule A[THEN conjunct1])
  have 2: "count_list (new_events initial_state (snd (initCamera hw_camera_dead initial_state)))
        CameraInit = 5"
    using A[THEN conjunct2, THEN conjunct2, THEN conjunct1] by (simp only: MAX_RETRIES_def)
  have 3: "fst (run hw_camera_dead 3) = CameraHalt"
    using A[THEN conjunct2, THEN conjunct2, THEN conjunct2, THEN conjunct2] d(1) by blast
  have 4: "fst (initCamera hw_retry_once initial_state) = True"
    by (rule B[THEN conjunct1])
  have 5: "new_events initial_state (snd (initCamera hw_retry_once initial_state))
       = [PinModeOutput 32, DigitalWrite 32 True, Delay 100, DigitalWrite 32 False, Delay 100,
          CameraInit, Delay 1000, CameraDeinit, Delay 500, CameraInit, SensorTune]"
    using B[THEN conjunct2, THEN conjunct2, THEN conjunct2, THEN conjunct1] d(3)
    by (simp add: u PWDN_GPIO_NUM_def)
  have 6: "fst (run hw_retry_once 3) = Looping"
    using B[THEN conjunct2, THEN conjunct2, THEN conjunct2, THEN conjunct2] d(2) by blast
  show ?thesis using 1 2 3 4 5 6 by (simp only: simp_thms)
qed

text \<open>
  C7, as the code has it. \<^verbatim>\<open>initCamera\<close> power-cycles the sensor once, before the
  first attempt: the events it adds begin with power-down high, 100 ms, power-down low,
  100 ms and the first configuration request, and however many attempts follow, the
  power-down pin is written high once and low once.
\<close>

theorem single_power_cycle:
  "take 6 (new_events s (snd (initCamera hw s)))
     = [PinModeOutput PWDN_GPIO_NUM, DigitalWrite PWDN_GPIO_NUM True, Delay 100,
        DigitalWrite PWDN_GPIO_NUM False, Delay 100, CameraInit]
   \<and> count_list (new_events s (snd (initCamera hw s))) (DigitalWrite PWDN_GPIO_NUM True) = 1
   \<and> count_list (new_events s (snd (initCamera hw s))) (DigitalWrite PWDN_GPIO_NUM False) = 1"
proof -
  obtain es where es: "trace (snd (initCamera hw s)) = trace s @ power_cycle @ CameraInit # es"
    "list_all is_retry_event es"
    using initCamera_events by blast
  then have n: "new_events s (snd (initCamera hw s)) = power_cycle @ CameraInit # es"
    by (simp add: new_events_def)
  show ?thesis unfolding n using count_list_retry_events[OF es(2)]
    by (simp add: power_cycle_def)
qed

theorem single_power_cycle_witness:
  "count_list (new_events initial_state (snd (initCamera hw_retry_once initial_state)))
     (DigitalWrite 32 True) = 1"
  using single_power_cycle[of initial_state hw_retry_once]
  by (simp add: PWDN_GPIO_NUM_def)

text \<open>
  C7 as stated fails: when the first attempt fails and the second succeeds, there are
  two configuration requests and one power-cycle; the second request follows the
  pause and \<^verbatim>\<open>esp_camera_deinit\<close>, not a power-cycle.
\<close>

theorem retry_without_power_cycle_counterexample:
  "new_events initial_state (snd (initCamera hw_retry_once initial_state))
       = [PinModeOutput 32, DigitalWrite 32 True, Delay 100, DigitalWrite 32 False, Delay 100,
          CameraInit, Delay 1000, CameraDeinit, Delay 500, CameraInit, SensorTune]
   \<and> count_list (new_events initial_state (snd (initCamera hw_retry_once initial_state)))
        CameraInit = 2
   \<and> count_list (new_events initial_state (snd (initCamera hw_retry_once initial_state)))
        (DigitalWrite 32 True) = 1"
  by (simp add: initCamera_def init_attempts.simps hw_retry_once_def MAX_RETRIES_def
      PWDN_GPIO_NUM_def new_events_def initial_state_def)

lemma init_attempts_serial:
  "\<exists>ds. serial (snd (init_attempts cam sens a s)) = serial s @ ds"
proof (induction "MAX_RETRIES + 1 - a" arbitrary: a s)
  case 0
  then have "\<not> a \<le> MAX_RETRIES" by simp
  then show ?case by (subst init_attempts.simps) simp
next
  case (Suc n)
  then have a: "a \<le> MAX_RETRIES" by simp
  show ?case
  proof (cases "cam a = ESP_OK")
    case True
    then show ?thesis using a by (subst init_attempts.simps) simp
  next
    case False
    let ?next = "(if a < MAX_RETRIES
                     then emit [Delay (a * 1000), CameraDeinit, Delay 500]
                     else id)
                      (println [InitAttemptFailed a (cam a), Line (classify (cam a))]
                         (emit [CameraInit] s))"
    have step: "init_attempts cam sens a s = init_attempts cam sens (a + 1) ?next"
      using False a by (subst init_attempts.simps) simp
    have "n = MAX_RETRIES + 1 - (a + 1)" using Suc.hyps(2) by simp
    from Suc.hyps(1)[OF this, of ?next] obtain ds where
      "serial (snd (init_attempts cam sens (a + 1) ?next)) = serial ?next @ ds" by blast
    then show ?thesis unfolding step by (cases "a < MAX_RETRIES") simp_all
  qed
qed

lemma initCamera_serial: "\<exists>ds. serial (snd (initCamera hw s)) = serial s @ ds"
  using init_attempts_serial[of "camera_init_result hw" "sensor_available hw" 1
          "emit [PinModeOutput PWDN_GPIO_NUM, DigitalWrite PWDN_GPIO_NUM True, Delay 100,
              DigitalWrite PWDN_GPIO_NUM False, Delay 100] s"]
  by (simp add: initCamera_def)

lemma loop_serial: "\<exists>ds. serial (loop fbp t0 t1 s) = serial s @ ds"
  by (simp add: loop_def Let_def)

lemma setup_prefix:
  "\<exists>es ds. trace (snd (setup_sketch hw initial_state))
             = [Delay 3000, WireBegin 15 14, WireSetClock 400000, WireProbe OLED_ADDR,
                DisplayBegin OLED_ADDR] @ es
         \<and> serial (snd (setup_sketch hw initial_state)) = probe_report (probe_ack hw) @ ds"
proof (cases "display_begin_ok hw")
  case False
  then show ?thesis by (simp add: setup_sketch_def Let_def initial_state_def)
next
  case True
  let ?s4 = "displayStatus ''Initializing camera...'' False
                       (testOLED (emit [DisplayClear, DisplayFlush]
                          (emit [DisplayBegin OLED_ADDR]
                             (println (probe_report (probe_ack hw))
                               (emit [Delay 3000, WireBegin 15 14, WireSetClock 400000,
                                      WireProbe OLED_ADDR] initial_state)))))"
  obtain es where es: "trace (snd (initCamera hw ?s4)) = trace ?s4 @ power_cycle @ CameraInit # es"
    using initCamera_events by blast
  obtain ds where ds: "serial (snd (initCamera hw ?s4)) = serial ?s4 @ ds"
    using initCamera_serial by blast
  obtain ok s5 where i: "initCamera hw ?s4 = (ok, s5)" by (cases "initCamera hw ?s4")
  have t4: "\<exists>es'. trace ?s4 = [Delay 3000, WireBegin 15 14, WireSetClock 400000,
                        WireProbe OLED_ADDR, DisplayBegin OLED_ADDR] @ es'"
    by (simp add: displayStatus_def testOLED_def initial_state_def)
  have l4: "serial ?s4 = probe_report (probe_ack hw)"
    by (simp add: displayStatus_def testOLED_def initial_state_def)
  from t4 obtain es' where es': "trace ?s4 = [Delay 3000, WireBegin 15 14, WireSetClock 400000,
                        WireProbe OLED_ADDR, DisplayBegin OLED_ADDR] @ es'" by blast
  have T: "trace s5 = [Delay 3000, WireBegin 15 14, WireSetClock 400000,
                        WireProbe OLED_ADDR, DisplayBegin OLED_ADDR]
                      @ (es' @ power_cycle @ CameraInit # es)"
    using es i es' by simp
  have L: "serial s5 = probe_report (probe_ack hw) @ ds" using ds i l4 by simp
  show ?thesis
  proof (cases ok)
    case True
    show ?thesis
      using True \<open>display_begin_ok hw\<close> i T L
      by (simp add: setup_sketch_def Let_def displayStatus_def)
  next
    case False
    show ?thesis
      using False \<open>display_begin_ok hw\<close> i T L
      by (simp add: setup_sketch_def Let_def displayStatus_def)
  qed
qed

lemma run_serial_grows: "\<exists>ds. serial (snd (run hw n)) = serial (snd (run hw 0)) @ ds"
proof (induction n)
  case 0
  show ?case by simp
next
  case (Suc n)
  then obtain ds where ds: "serial (snd (run hw n)) = serial (snd (run hw 0)) @ ds" by blast
  obtain p s where r: "run hw n = (p, s)" by (cases "run hw n")
  obtain ds' where "serial (loop (fb_get hw n) (millis_start hw n) (millis_end hw n) s) = serial s @ ds'"
    using loop_serial by blast
  with ds r show ?case
    by (cases p) (auto simp: oled_halt_body_def camera_halt_body_def displayStatus_def)
qed


text \<open>
  C8, as the code has it. Whatever the I2C probe answers, start-up goes on to start the
  display driver; a probe that is not acknowledged is reported in two serial lines, and
  the probe's answer changes nothing but the serial log. When the display driver fails
  to start, the program is in the display halt loop after any number of passes: the
  driver was started once (no retry), the camera is never initialised and no frame is
  ever requested. When the display driver starts, the program goes on to camera
  initialisation.
\<close>

theorem display_bringup_outcomes:
  "(\<not> display_begin_ok hw \<longrightarrow>
      fst (run hw n) = OledHalt
      \<and> count_list (trace (snd (run hw n))) (DisplayBegin OLED_ADDR) = 1
      \<and> CameraInit \<notin> set (trace (snd (run hw n)))
      \<and> FbGet \<notin> set (trace (snd (run hw n)))
      \<and> \<not> cameraInitialized (snd (run hw n)))
   \<and> (display_begin_ok hw \<longrightarrow>
      fst (run hw n) \<noteq> OledHalt \<and> CameraInit \<in> set (trace (snd (run hw n))))
   \<and> take 5 (trace (snd (run hw n)))
       = [Delay 3000, WireBegin 15 14, WireSetClock 400000, WireProbe OLED_ADDR,
          DisplayBegin OLED_ADDR]
   \<and> (\<not> probe_ack hw \<longrightarrow>
        take 2 (serial (snd (run hw n)))
          = [Line ''No I2C device found at address 0x3C'', Line ''Check OLED wiring!''])
   \<and> fst (run (hw\<lparr>probe_ack := False\<rparr>) n) = fst (run (hw\<lparr>probe_ack := True\<rparr>) n)
   \<and> silent (snd (run (hw\<lparr>probe_ack := False\<rparr>) n))
       = silent (snd (run (hw\<lparr>probe_ack := True\<rparr>) n))"
proof (intro conjI impI)
  {
    assume d: "\<not> display_begin_ok hw"
    note H = run_oled_halt[OF d, of n]
    show "fst (run hw n) = OledHalt" using H by blast
    show "\<not> cameraInitialized (snd (run hw n))" using H by blast
    have t: "trace (snd (run hw n))
             = [Delay 3000, WireBegin 15 14, WireSetClock 400000, WireProbe OLED_ADDR,
                DisplayBegin OLED_ADDR] @ replicate n (Delay 5000)" using H by blast
    show "count_list (trace (snd (run hw n))) (DisplayBegin OLED_ADDR) = 1"
      unfolding t by (simp add: count_list_replicate_other)
    show "CameraInit \<notin> set (trace (snd (run hw n)))" unfolding t by auto
    show "FbGet \<notin> set (trace (snd (run hw n)))" unfolding t by auto
  }
  {
    assume d: "display_begin_ok hw"
    show "fst (run hw n) \<noteq> OledHalt"
      unfolding run_phase setup_phase using d by simp
    obtain es where "trace (snd (run hw n)) = trace (snd (run hw 0)) @ es"
      using run_trace_grows by blast
    then show "CameraInit \<in> set (trace (snd (run hw n)))"
      using setup_attempts_camera[OF d] by simp
  }
  obtain es ds where
    p: "trace (snd (run hw 0))
             = [Delay 3000, WireBegin 15 14, WireSetClock 400000, WireProbe OLED_ADDR,
                DisplayBegin OLED_ADDR] @ es"
       "serial (snd (run hw 0)) = probe_report (probe_ack hw) @ ds"
    using setup_prefix[of hw] by auto
  obtain es' where g: "trace (snd (run hw n)) = trace (snd (run hw 0)) @ es'"
    using run_trace_grows by blast
  obtain ds' where h: "serial (snd (run hw n)) = serial (snd (run hw 0)) @ ds'"
    using run_serial_grows by blast
  show "take 5 (trace (snd (run hw n)))
       = [Delay 3000, WireBegin 15 14, WireSetClock 400000, WireProbe OLED_ADDR,
          DisplayBegin OLED_ADDR]"
    unfolding g p by simp
  show "take 2 (serial (snd (run hw n)))
          = [Line ''No I2C device found at address 0x3C'', Line ''Check OLED wiring!'']"
    if "\<not> probe_ack hw"
    unfolding h p using that by (simp add: probe_report_def)
  show "fst (run (hw\<lparr>probe_ack := False\<rparr>) n) = fst (run (hw\<lparr>probe_ack := True\<rparr>) n)"
    using run_probe_silent by blast
  show "silent (snd (run (hw\<lparr>probe_ack := False\<rparr>) n))
       = silent (snd (run (hw\<lparr>probe_ack := True\<rparr>) n))"
    using run_probe_silent by blast
qed

theorem display_bringup_outcomes_witness:
  "fst (run hw_no_display 4) = OledHalt
   \<and> CameraInit \<notin> set (trace (snd (run hw_no_display 4)))
   \<and> fst (run hw_retry_once 4) \<noteq> OledHalt
   \<and> take 2 (serial (snd (run hw_retry_once 4)))
        = [Line ''No I2C device found at address 0x3C'', Line ''Check OLED wiring!'']"
proof -
  have d: "\<not> display_begin_ok hw_no_display" "display_begin_ok hw_retry_once"
    "\<not> probe_ack hw_retry_once"
    by (simp_all add: hw_no_display_def hw_retry_once_def)
  note A = display_bringup_outcomes[of hw_no_display 4]
  note B = display_bringup_outcomes[of hw_retry_once 4]
  have 1: "fst (run hw_no_display 4) = OledHalt"
    and 2: "CameraInit \<notin> set (trace (snd (run hw_no_display 4)))"
    using A[THEN conjunct1, THEN mp, OF d(1)] by blast+
  have 3: "fst (run hw_retry_once 4) \<noteq> OledHalt"
    using B[THEN conjunct2, THEN conjunct1, THEN mp, OF d(2)] by blast
  have 4: "take 2 (serial (snd (run hw_retry_once 4)))
        = [Line ''No I2C device found at address 0x3C'', Line ''Check OLED wiring!'']"
    by (rule B[THEN conjunct2, THEN conjunct2, THEN conjunct2, THEN conjunct1, THEN mp, OF d(3)])
  from 1 2 3 4 show ?thesis by (simp only: simp_thms)
qed

text \<open>
  C8 as stated fails: a board whose I2C probe is not acknowledged but whose display
  driver starts goes on to initialise the camera and to request frames.
\<close>

theorem failed_probe_not_fatal_counterexample:
  "\<not> probe_ack hw_retry_once
   \<and> fst (run hw_retry_once 0) = Looping
   \<and> CameraInit \<in> set (trace (snd (run hw_retry_once 0)))
   \<and> FbGet \<in> set (trace (snd (run hw_retry_once 1)))"
  by (simp add: setup_sketch_def Let_def initCamera_def init_attempts.simps hw_retry_once_def
      MAX_RETRIES_def testOLED_def displayStatus_def initial_state_def loop_def
      processFrame_def)

section \<open>The reported error rate\<close>




lemma f32_round_zero [simp]: "f32_round 0 = 0"
  by (simp add: f32_round_def)










lemma reported_rates_append [simp]:
  "reported_rates (xs @ ys) = reported_rates xs @ reported_rates ys"
  by (induction xs rule: reported_rates.induct) simp_all






end
